theory Spec2Isabelle
  imports Main
begin

section \<open>Go strings and the library calls the pipeline makes\<close>

text \<open>
  A Go string is a sequence of bytes, so it is modelled as \<^typ>\<open>string\<close> (a list of
  8-bit characters). The functions of package \<open>strings\<close> that the repository calls are
  written out on bytes, as the Go library documents them:

  \<^item> \<open>TrimSpace\<close> removes leading and trailing white space as \<open>unicode.IsSpace\<close> defines
    it: the six ASCII bytes tab, line feed, vertical tab, form feed, carriage return and
    space, and the UTF-8 encodings of U+0085, U+00A0, U+1680, U+2000 to U+200A, U+2028,
    U+2029, U+202F, U+205F and U+3000.
  \<^item> \<open>ToLower\<close> maps the bytes \<open>A\<close> to \<open>Z\<close> to \<open>a\<close> to \<open>z\<close> when the string is pure
    ASCII. On any other string Go calls \<open>Map(unicode.ToLower, s)\<close>, which needs the
    Unicode case tables of the Go runtime; that function is the parameter
    \<open>unicodeLower\<close> of every definition that lowercases.
  \<^item> \<open>Split\<close>, \<open>Replace\<close> and \<open>Index\<close> are only called with the one-byte arguments
    \<open>"@"\<close>, \<open>"."\<close> and \<open>"+"\<close>, so they take that byte as a \<^typ>\<open>char\<close>.
\<close>

definition asciiSpace :: "char \<Rightarrow> bool" where
  "asciiSpace c =
     (c = CHR 0x09 \<or> c = CHR 0x0A \<or> c = CHR 0x0B \<or> c = CHR 0x0C \<or> c = CHR 0x0D \<or> c = CHR 0x20)"

definition space2 :: "char \<Rightarrow> char \<Rightarrow> bool" where
  "space2 a b = (a = CHR 0xC2 \<and> (b = CHR 0x85 \<or> b = CHR 0xA0))"

definition space3 :: "char \<Rightarrow> char \<Rightarrow> char \<Rightarrow> bool" where
  "space3 a b c =
     ((a = CHR 0xE1 \<and> b = CHR 0x9A \<and> c = CHR 0x80) \<or>
      (a = CHR 0xE2 \<and> b = CHR 0x80 \<and>
         ((0x80 \<le> (of_char c :: nat) \<and> (of_char c :: nat) \<le> 0x8A) \<or>
          c = CHR 0xA8 \<or> c = CHR 0xA9 \<or> c = CHR 0xAF)) \<or>
      (a = CHR 0xE2 \<and> b = CHR 0x81 \<and> c = CHR 0x9F) \<or>
      (a = CHR 0xE3 \<and> b = CHR 0x80 \<and> c = CHR 0x80))"

fun trimLeft :: "string \<Rightarrow> string" where
  "trimLeft (a # b # c # s) =
     (if asciiSpace a then trimLeft (b # c # s)
      else if space2 a b then trimLeft (c # s)
      else if space3 a b c then trimLeft s
      else a # b # c # s)"
| "trimLeft [a, b] =
     (if asciiSpace a then trimLeft [b]
      else if space2 a b then []
      else [a, b])"
| "trimLeft [a] = (if asciiSpace a then [] else [a])"
| "trimLeft [] = []"

text \<open>
  \<open>trimRightRev\<close> works on the reversed string: its head is the last byte, so the
  encodings are matched back to front.
\<close>

fun trimRightRev :: "string \<Rightarrow> string" where
  "trimRightRev (c # b # a # s) =
     (if asciiSpace c then trimRightRev (b # a # s)
      else if space2 b c then trimRightRev (a # s)
      else if space3 a b c then trimRightRev s
      else c # b # a # s)"
| "trimRightRev [c, b] =
     (if asciiSpace c then trimRightRev [b]
      else if space2 b c then []
      else [c, b])"
| "trimRightRev [c] = (if asciiSpace c then [] else [c])"
| "trimRightRev [] = []"

definition TrimSpace :: "string \<Rightarrow> string" where
  "TrimSpace s = rev (trimRightRev (rev (trimLeft s)))"

definition isASCII :: "string \<Rightarrow> bool" where
  "isASCII s = list_all (\<lambda>c. (of_char c :: nat) < 0x80) s"

definition lowerByte :: "char \<Rightarrow> char" where
  "lowerByte c =
     (if 0x41 \<le> (of_char c :: nat) \<and> (of_char c :: nat) \<le> 0x5A
      then char_of ((of_char c :: nat) + 0x20) else c)"

definition ToLower :: "(string \<Rightarrow> string) \<Rightarrow> string \<Rightarrow> string" where
  "ToLower unicodeLower s = (if isASCII s then map lowerByte s else unicodeLower s)"

fun Split :: "string \<Rightarrow> char \<Rightarrow> string list" where
  "Split [] sep = [[]]"
| "Split (c # s) sep =
     (if c = sep then [] # Split s sep
      else (case Split s sep of
              p # ps \<Rightarrow> (c # p) # ps
            | [] \<Rightarrow> [[c]]))"

text \<open>\<open>Replace s old new\<close> is \<open>strings.Replace(s, old, new, -1)\<close>: every occurrence.\<close>

definition Replace :: "string \<Rightarrow> char \<Rightarrow> string \<Rightarrow> string" where
  "Replace s old new = concat (map (\<lambda>c. if c = old then new else [c]) s)"

fun Index :: "string \<Rightarrow> char \<Rightarrow> int" where
  "Index [] c = - 1"
| "Index (x # s) c =
     (if x = c then 0
      else (let i = Index s c in if i < 0 then - 1 else i + 1))"

section \<open>The normalizer and the validator (package utils)\<close>

text \<open>
  \<open>EmailValidationResult\<close> of package \<open>utils\<close>. Package \<open>services\<close> has a struct with
  the same field names (\<open>EmailEntry\<close>, below), so the fields of this one carry the
  prefix \<open>v\<close>.
\<close>

record EmailValidationResult =
  vEmail :: string
  vIsValid :: bool
  vIsDisposable :: bool
  vNormalizedEmail :: string
  vReason :: string

definition NormalizeEmail :: "(string \<Rightarrow> string) \<Rightarrow> string \<Rightarrow> string" where
  "NormalizeEmail unicodeLower email0 =
     (let email = ToLower unicodeLower (TrimSpace email0);
          parts = Split email CHR ''@''
      in if length parts = 2 \<and> parts ! 1 = ''gmail.com'' then
           (let username = Replace (parts ! 0) CHR ''.'' [];
                plusIndex = Index username CHR ''+'';
                username' = (if plusIndex > 0 then take (nat plusIndex) username else username)
            in username' @ ''@gmail.com'')
         else email)"

text \<open>
  \<open>ValidateEmailDetailed\<close>. The pooled object is overwritten and then copied
  (\<open>result := *resultPtr\<close>), so the value returned is a fresh struct; the pool and the
  logging have no effect on it. The disposable-domain lookup is commented out in the
  source, so \<open>IsDisposable\<close> keeps the \<open>false\<close> it was initialised with.
\<close>

definition ValidateEmailDetailed :: "(string \<Rightarrow> string) \<Rightarrow> string \<Rightarrow> EmailValidationResult" where
  "ValidateEmailDetailed unicodeLower email0 =
     (let email = TrimSpace email0;
          result = \<lparr> vEmail = email, vIsValid = False, vIsDisposable = False,
                     vNormalizedEmail = NormalizeEmail unicodeLower email, vReason = [] \<rparr>
      in if email = [] then result\<lparr> vReason := ''Email cannot be empty'' \<rparr>
         else if length (Split email CHR ''@'') \<noteq> 2
           then result\<lparr> vReason := ''Email must contain exactly one @ symbol'' \<rparr>
         else result\<lparr> vIsValid := True \<rparr>)"

text \<open>The identity stands for the Unicode lowering wherever a concrete value is evaluated on
  ASCII input, where \<open>ToLower\<close> never calls it.\<close>

definition noUnicode :: "string \<Rightarrow> string" where
  "noUnicode s = s"

text \<open>
  \<open>ValidateEmailsBatch\<close>. The source starts \<open>workerCount\<close> goroutines; each takes indices
  from the channel \<open>jobs\<close> and stores \<open>ValidateEmailDetailed(emails[idx])\<close> in
  \<open>results[idx]\<close>. What the scheduler decides is which worker takes which index and in
  which order the stores happen: a schedule is that sequence of pairs (worker, index).
  \<open>schedule\<close> says that every index sent on the channel is taken exactly once, by one of
  the workers that exist; it allows every interleaving the Go runtime can produce.
  A store outside the slice would panic: \<open>None\<close>.
\<close>

definition zeroResult :: EmailValidationResult where
  "zeroResult = \<lparr> vEmail = [], vIsValid = False, vIsDisposable = False,
                   vNormalizedEmail = [], vReason = [] \<rparr>"

definition workerCount :: "string list \<Rightarrow> nat" where
  "workerCount emails = min (length emails) 10"

definition schedule :: "string list \<Rightarrow> (nat \<times> nat) list \<Rightarrow> bool" where
  "schedule emails sched =
     (distinct (map snd sched) \<and> set (map snd sched) = set [0..<length emails] \<and>
      list_all (\<lambda>job. fst job < workerCount emails) sched)"

fun runWorkers ::
  "(string \<Rightarrow> string) \<Rightarrow> string list \<Rightarrow> (nat \<times> nat) list \<Rightarrow>
   EmailValidationResult list \<Rightarrow> EmailValidationResult list option" where
  "runWorkers unicodeLower emails [] results = Some results"
| "runWorkers unicodeLower emails ((workerID, idx) # sched) results =
     (if idx < length emails
      then runWorkers unicodeLower emails sched
             (results[idx := ValidateEmailDetailed unicodeLower (emails ! idx)])
      else None)"

definition ValidateEmailsBatch ::
  "(string \<Rightarrow> string) \<Rightarrow> (nat \<times> nat) list \<Rightarrow> string list \<Rightarrow>
   EmailValidationResult list option" where
  "ValidateEmailsBatch unicodeLower sched emails =
     runWorkers unicodeLower emails sched (replicate (length emails) zeroResult)"

section \<open>The comparator (package services)\<close>

record EmailEntry =
  Email :: string
  Source :: string
  IsValid :: bool
  IsDisposable :: bool
  NormalizedEmail :: string
  Status :: string
  Reason :: string

text \<open>
  \<open>ValidationSummary\<close>, without \<open>ProcessingTimeSeconds\<close>: that field is a float64 the
  caller stamps from the wall clock after the comparison. The counters are Go \<open>int\<close>s
  bounded by the lengths of the slices, so they cannot overflow.
\<close>

record ValidationSummary =
  TotalEmailsFirstFile :: int
  TotalEmailsSecondFile :: int
  ValidEmailsFirstFile :: int
  ValidEmailsSecondFile :: int
  MatchingCount :: int
  MissingInFirstCount :: int
  MissingInSecondCount :: int
  DisposableEmailsCount :: int

definition toEntry :: "string \<Rightarrow> EmailValidationResult \<Rightarrow> EmailEntry" where
  "toEntry source validationResult =
     \<lparr> Email = vEmail validationResult,
       Source = source,
       IsValid = vIsValid validationResult,
       IsDisposable = vIsDisposable validationResult,
       NormalizedEmail = vNormalizedEmail validationResult,
       Status = (if vIsValid validationResult then ''Valid'' else ''Invalid''),
       Reason = vReason validationResult \<rparr>"

definition validateEmailList ::
  "(string \<Rightarrow> string) \<Rightarrow> (nat \<times> nat) list \<Rightarrow> string list \<Rightarrow> string \<Rightarrow>
   EmailEntry list option" where
  "validateEmailList unicodeLower sched emails source =
     map_option (map (toEntry source)) (ValidateEmailsBatch unicodeLower sched emails)"

text \<open>The local variables of \<open>compareEmailEntries\<close>, threaded through its three loops.\<close>

record compareState =
  summary :: ValidationSummary
  firstMap :: "string \<rightharpoonup> EmailEntry"
  secondMap :: "string \<rightharpoonup> EmailEntry"
  matching :: "EmailEntry list"
  missingInFirst :: "EmailEntry list"
  missingInSecond :: "EmailEntry list"

fun firstLoop :: "EmailEntry list \<Rightarrow> compareState \<Rightarrow> compareState" where
  "firstLoop [] st = st"
| "firstLoop (entry # rest) st =
     firstLoop rest
       (st\<lparr> summary :=
               (if IsValid entry
                then (summary st)\<lparr> ValidEmailsFirstFile := ValidEmailsFirstFile (summary st) + 1 \<rparr>
                else summary st),
             firstMap := (firstMap st)(NormalizedEmail entry \<mapsto> entry) \<rparr>)"

fun secondLoop :: "EmailEntry list \<Rightarrow> compareState \<Rightarrow> compareState" where
  "secondLoop [] st = st"
| "secondLoop (entry # rest) st =
     secondLoop rest
       (let st1 = st\<lparr> summary :=
                        (if IsValid entry
                         then (summary st)\<lparr> ValidEmailsSecondFile :=
                                                ValidEmailsSecondFile (summary st) + 1 \<rparr>
                         else summary st) \<rparr>;
            st2 = (case firstMap st1 (NormalizedEmail entry) of
                     Some firstEntry \<Rightarrow> st1\<lparr> matching := matching st1 @ [firstEntry] \<rparr>
                   | None \<Rightarrow> st1\<lparr> missingInFirst := missingInFirst st1 @ [entry] \<rparr>)
        in st2\<lparr> secondMap := (secondMap st2)(NormalizedEmail entry \<mapsto> entry) \<rparr>)"

text \<open>
  The third loop is \<open>for normalizedEmail, entry := range firstMap\<close>. Go does not specify
  the order in which \<open>range\<close> visits a map, and the runtime randomises it; it visits
  every key once. The order of one run is the parameter \<open>order\<close>, and \<open>iterationOrder\<close>
  says that it lists every key of the first file's map exactly once.
\<close>

fun thirdLoop :: "string list \<Rightarrow> compareState \<Rightarrow> compareState" where
  "thirdLoop [] st = st"
| "thirdLoop (normalizedEmail # rest) st =
     thirdLoop rest
       (case firstMap st normalizedEmail of
          None \<Rightarrow> st
        | Some entry \<Rightarrow>
            (if secondMap st normalizedEmail = None
             then st\<lparr> missingInSecond := missingInSecond st @ [entry] \<rparr>
             else st))"

definition iterationOrder :: "string list \<Rightarrow> EmailEntry list \<Rightarrow> bool" where
  "iterationOrder order firstEntries =
     (distinct order \<and> set order = set (map NormalizedEmail firstEntries))"

definition compareEmailEntries ::
  "string list \<Rightarrow> EmailEntry list \<Rightarrow> EmailEntry list \<Rightarrow>
   EmailEntry list \<times> EmailEntry list \<times> EmailEntry list \<times> ValidationSummary" where
  "compareEmailEntries order firstEntries secondEntries =
     (let st0 = \<lparr> summary = \<lparr> TotalEmailsFirstFile = int (length firstEntries),
                               TotalEmailsSecondFile = int (length secondEntries),
                               ValidEmailsFirstFile = 0, ValidEmailsSecondFile = 0,
                               MatchingCount = 0, MissingInFirstCount = 0,
                               MissingInSecondCount = 0, DisposableEmailsCount = 0 \<rparr>,
                   firstMap = Map.empty, secondMap = Map.empty,
                   matching = [], missingInFirst = [], missingInSecond = [] \<rparr>;
          st1 = firstLoop firstEntries st0;
          st2 = secondLoop secondEntries st1;
          st3 = thirdLoop order st2
      in (matching st3, missingInFirst st3, missingInSecond st3,
          (summary st3)\<lparr> MatchingCount := int (length (matching st3)),
                          MissingInFirstCount := int (length (missingInFirst st3)),
                          MissingInSecondCount := int (length (missingInSecond st3)) \<rparr>))"

text \<open>An entry as the pipeline builds it from one cell of an ASCII input file.\<close>

definition entryOf :: "string \<Rightarrow> string \<Rightarrow> EmailEntry" where
  "entryOf source email = toEntry source (ValidateEmailDetailed noUnicode email)"

section \<open>The extractor (package services)\<close>

text \<open>
  The file system is a map from paths to files; a path it does not hold cannot be
  opened. What \<open>encoding/csv\<close> and \<open>excelize\<close> parse out of the bytes of a file is
  part of the file: for the CSV reader the non-blank lines, each either split into its
  fields or rejected by the lexer (\<open>BadLine\<close>); for \<open>excelize\<close> the workbook when the
  bytes are one (a zero-byte file is not), its sheets and their rows. The check of the
  field count, which the reader does itself, is written out in \<open>Read\<close>.

  A Go function returning \<open>([]string, error)\<close> returns a pair here: \<open>None\<close> in the first
  component is the nil slice, \<open>None\<close> in the second the nil error.
\<close>

datatype error =
    PathError | EOF | ParseError | ErrFieldCount
  | NotAWorkbook | NoSheetsFound | SheetError | RowError
  | UnsupportedFormat string | UnsupportedOutputFormat string
  | CreateError | SaveError

datatype csvLine = Fields "string list" | BadLine

datatype xlsxRow = Columns "string list" | BadRow

datatype sheet = Sheet "xlsxRow list" | BadSheet

record inputFile =
  csvLines :: "csvLine list"
  workbook :: "sheet list option"

type_synonym fileSystem = "string \<rightharpoonup> inputFile"

record csvReader =
  FieldsPerRecord :: nat
  pending :: "csvLine list"

definition NewReader :: "inputFile \<Rightarrow> csvReader" where
  "NewReader f = \<lparr> FieldsPerRecord = 0, pending = csvLines f \<rparr>"

text \<open>
  \<open>Read\<close>: with \<open>FieldsPerRecord\<close> 0, the first record sets the number of fields that
  every later record must have; a record with another number is \<open>ErrFieldCount\<close>.
\<close>

definition Read :: "csvReader \<Rightarrow> (error + string list) \<times> csvReader" where
  "Read r =
     (case pending r of
        [] \<Rightarrow> (Inl EOF, r)
      | BadLine # rest \<Rightarrow> (Inl ParseError, r\<lparr> pending := rest \<rparr>)
      | Fields record # rest \<Rightarrow>
          (if FieldsPerRecord r > 0
           then (if length record \<noteq> FieldsPerRecord r then Inl ErrFieldCount else Inr record,
                 r\<lparr> pending := rest \<rparr>)
           else (Inr record, r\<lparr> FieldsPerRecord := length record, pending := rest \<rparr>)))"

definition Contains :: "string \<Rightarrow> char \<Rightarrow> bool" where
  "Contains s c = (c \<in> set s)"

text \<open>The body of both extraction loops: the first cell of the row is kept when it is
  not empty and holds an \<open>@\<close>.\<close>

definition appendCandidate :: "string list \<Rightarrow> string list \<Rightarrow> string list" where
  "appendCandidate record emails =
     (case record of
        [] \<Rightarrow> emails
      | cell # _ \<Rightarrow>
          (if cell \<noteq> [] \<and> Contains cell CHR ''@'' then emails @ [cell] else emails))"

function csvLoop :: "csvReader \<Rightarrow> string list \<Rightarrow> string list option \<times> error option" where
  "csvLoop reader emails =
     (case Read reader of
        (Inl err, reader') \<Rightarrow> (if err = EOF then (Some emails, None) else (None, Some err))
      | (Inr record, reader') \<Rightarrow> csvLoop reader' (appendCandidate record emails))"
  by pat_completeness auto
termination
proof (relation "measure (\<lambda>(reader, emails). length (pending reader))")
  show "wf (measure (\<lambda>(reader, emails). length (pending reader)))" by simp
next
  fix reader :: csvReader and emails :: "string list" and x y fields
  assume "(x, y) = Read reader" and "x = Inr fields"
  then have "length (pending y) < length (pending reader)"
    by (auto simp: Read_def split: list.splits csvLine.splits if_splits)
  then show "((y, appendCandidate fields emails), reader, emails)
      \<in> measure (\<lambda>(reader, emails). length (pending reader))"
    by simp
qed

declare csvLoop.simps [simp del]

definition extractEmailsFromCSV ::
  "fileSystem \<Rightarrow> string \<Rightarrow> string list option \<times> error option" where
  "extractEmailsFromCSV fs filePath =
     (case fs filePath of
        None \<Rightarrow> (None, Some PathError)
      | Some opened \<Rightarrow>
          (case Read (NewReader opened) of
             (Inl err, reader) \<Rightarrow> (None, Some err)
           | (Inr header, reader) \<Rightarrow> csvLoop reader []))"

fun xlsxLoop :: "xlsxRow list \<Rightarrow> string list \<Rightarrow> string list option \<times> error option" where
  "xlsxLoop [] emails = (Some emails, None)"
| "xlsxLoop (BadRow # rows) emails = (None, Some RowError)"
| "xlsxLoop (Columns row # rows) emails = xlsxLoop rows (appendCandidate row emails)"

definition extractEmailsFromExcel ::
  "fileSystem \<Rightarrow> string \<Rightarrow> string list option \<times> error option" where
  "extractEmailsFromExcel fs filePath =
     (case fs filePath of
        None \<Rightarrow> (None, Some PathError)
      | Some opened \<Rightarrow>
          (case workbook opened of
             None \<Rightarrow> (None, Some NotAWorkbook)
           | Some sheets \<Rightarrow>
               (case sheets of
                  [] \<Rightarrow> (None, Some NoSheetsFound)
                | BadSheet # _ \<Rightarrow> (None, Some SheetError)
                | Sheet rows # _ \<Rightarrow>
                    (case rows of
                       [] \<Rightarrow> xlsxLoop [] []
                     | BadRow # _ \<Rightarrow> (None, Some RowError)
                     | Columns header # rest \<Rightarrow> xlsxLoop rest []))))"

text \<open>\<open>filepath.Ext\<close>: the suffix from the last dot of the last path element, scanned
  from the end of the path; empty without a dot.\<close>

fun extScan :: "string \<Rightarrow> string \<Rightarrow> string" where
  "extScan [] suffix = []"
| "extScan (c # before) suffix =
     (if c = CHR ''/'' then []
      else if c = CHR ''.'' then c # suffix
      else extScan before (c # suffix))"

definition Ext :: "string \<Rightarrow> string" where
  "Ext path = extScan (rev path) []"

definition extractEmails ::
  "(string \<Rightarrow> string) \<Rightarrow> fileSystem \<Rightarrow> string \<Rightarrow> string list option \<times> error option" where
  "extractEmails unicodeLower fs filePath =
     (let ext = ToLower unicodeLower (Ext filePath)
      in if ext = ''.csv'' \<or> ext = ''.xlsx'' \<or> ext = ''.xls'' then
           (case (if ext = ''.csv'' then extractEmailsFromCSV fs filePath
                  else extractEmailsFromExcel fs filePath) of
              (emails, Some err) \<Rightarrow> (None, Some err)
            | (emails, None) \<Rightarrow> (emails, None))
         else (None, Some (UnsupportedFormat ext)))"

section \<open>The report writers (package services)\<close>

definition fmtBool :: "bool \<Rightarrow> string" where
  "fmtBool b = (if b then ''Yes'' else ''No'')"

text \<open>\<open>fmt.Sprintf("%d", n)\<close>: the decimal digits of an integer.\<close>

fun digits :: "nat \<Rightarrow> string" where
  "digits n =
     (if n < 10 then [char_of (48 + n)]
      else digits (n div 10) @ [char_of (48 + n mod 10)])"

declare digits.simps [simp del]

definition Sprintf_d :: "int \<Rightarrow> string" where
  "Sprintf_d i = (if i < 0 then CHR ''-'' # digits (nat (- i)) else digits (nat i))"

definition headers :: "string list" where
  "headers = [''Email'', ''Normalized Email'', ''Source'', ''Status'', ''Valid'', ''Reason'']"

definition summaryLabels :: "string list" where
  "summaryLabels =
     [''Total Emails in First File'', ''Total Emails in Second File'',
      ''Valid Emails in First File'', ''Valid Emails in Second File'',
      ''Matching Emails'', ''Emails Missing in First File'',
      ''Emails Missing in Second File'', ''Disposable Emails'']"

definition summaryValues :: "ValidationSummary \<Rightarrow> int list" where
  "summaryValues sm =
     [TotalEmailsFirstFile sm, TotalEmailsSecondFile sm,
      ValidEmailsFirstFile sm, ValidEmailsSecondFile sm,
      MatchingCount sm, MissingInFirstCount sm,
      MissingInSecondCount sm, DisposableEmailsCount sm]"

text \<open>
  \<open>generateEnhancedCSVOutput\<close>: the result is the error of \<open>os.Create\<close> (the parameter
  \<open>createErr\<close>) or the records handed to the CSV writer, in order. The writer is
  buffered; the returns after each \<open>writer.Write\<close>, which only a failing disk takes,
  are left out. \<open>firstEntries\<close> and \<open>secondEntries\<close> are parameters the source never
  reads.
\<close>

definition generateEnhancedCSVOutput ::
  "error option \<Rightarrow> EmailEntry list \<Rightarrow> EmailEntry list \<Rightarrow> EmailEntry list \<Rightarrow>
   ValidationSummary \<Rightarrow> error + string list list" where
  "generateEnhancedCSVOutput createErr matchingEntries missingInFirstEntries
       missingInSecondEntries sm =
     (case createErr of
        Some err \<Rightarrow> Inl err
      | None \<Rightarrow>
          Inr ([headers]
             @ map (\<lambda>entry. [Email entry, NormalizedEmail entry, ''Both'', ''Matching'',
                              fmtBool (IsValid entry), Reason entry]) matchingEntries
             @ map (\<lambda>entry. [Email entry, NormalizedEmail entry, ''Second File Only'',
                              ''Missing in First File'',
                              fmtBool (IsValid entry), Reason entry]) missingInFirstEntries
             @ map (\<lambda>entry. [Email entry, NormalizedEmail entry, ''First File Only'',
                              ''Missing in Second File'',
                              fmtBool (IsValid entry), Reason entry]) missingInSecondEntries
             @ [[[]], [''Summary''], [''Metric'', ''Value'']]
             @ map (\<lambda>(label, v). [label, Sprintf_d v]) (zip summaryLabels (summaryValues sm))))"

text \<open>
  The spreadsheet: the names of its sheets and its cells. A cell reference such as
  \<open>"B7"\<close> on a sheet is the triple (sheet, \<open>''B''\<close>, 7). Styles and column widths are
  left out. \<open>string('A'+i)\<close> is the letter \<open>i\<close> places after \<open>A\<close>.
\<close>

datatype cell = Text string | Number int

record xlsxFile =
  sheetList :: "string list"
  cells :: "string \<times> string \<times> nat \<rightharpoonup> cell"

definition NewFile :: xlsxFile where
  "NewFile = \<lparr> sheetList = [''Sheet1''], cells = Map.empty \<rparr>"

definition NewSheet :: "xlsxFile \<Rightarrow> string \<Rightarrow> xlsxFile" where
  "NewSheet f name = f\<lparr> sheetList := sheetList f @ [name] \<rparr>"

definition SetCellValue :: "xlsxFile \<Rightarrow> string \<Rightarrow> string \<Rightarrow> nat \<Rightarrow> cell \<Rightarrow> xlsxFile" where
  "SetCellValue f sheetName col row v = f\<lparr> cells := (cells f)((sheetName, col, row) \<mapsto> v) \<rparr>"

definition DeleteSheet :: "xlsxFile \<Rightarrow> string \<Rightarrow> xlsxFile" where
  "DeleteSheet f name =
     f\<lparr> sheetList := removeAll name (sheetList f),
        cells := (\<lambda>ref. if fst ref = name then None else cells f ref) \<rparr>"

definition resultsSheet :: string where
  "resultsSheet = ''Validation Results''"

definition summarySheet :: string where
  "summarySheet = ''Summary''"

fun writeHeaders :: "string list \<Rightarrow> nat \<Rightarrow> xlsxFile \<Rightarrow> xlsxFile" where
  "writeHeaders [] i f = f"
| "writeHeaders (header # rest) i f =
     writeHeaders rest (i + 1) (SetCellValue f resultsSheet [char_of (65 + i)] 1 (Text header))"

text \<open>One pass of an entry loop of \<open>generateEnhancedExcelOutput\<close>; the three loops differ
  in the two tags only. The reason goes to column \<open>I\<close>, as the source has it.\<close>

fun writeEntries ::
  "string \<Rightarrow> string \<Rightarrow> EmailEntry list \<Rightarrow> nat \<times> xlsxFile \<Rightarrow> nat \<times> xlsxFile" where
  "writeEntries sourceTag statusTag [] (row, f) = (row, f)"
| "writeEntries sourceTag statusTag (entry # rest) (row, f) =
     (let f1 = SetCellValue f resultsSheet ''A'' row (Text (Email entry));
          f2 = SetCellValue f1 resultsSheet ''B'' row (Text (NormalizedEmail entry));
          f3 = SetCellValue f2 resultsSheet ''C'' row (Text sourceTag);
          f4 = SetCellValue f3 resultsSheet ''D'' row (Text statusTag);
          f5 = SetCellValue f4 resultsSheet ''E'' row (Text (fmtBool (IsValid entry)));
          f6 = SetCellValue f5 resultsSheet ''I'' row (Text (Reason entry))
      in writeEntries sourceTag statusTag rest (row + 1, f6))"

fun writeSummary :: "(string \<times> int) list \<Rightarrow> nat \<Rightarrow> xlsxFile \<Rightarrow> xlsxFile" where
  "writeSummary [] i f = f"
| "writeSummary ((label, v) # rest) i f =
     writeSummary rest (i + 1)
       (SetCellValue (SetCellValue f summarySheet ''A'' (i + 2) (Text label))
          summarySheet ''B'' (i + 2) (Number v))"

definition generateEnhancedExcelOutput ::
  "error option \<Rightarrow> EmailEntry list \<Rightarrow> EmailEntry list \<Rightarrow> EmailEntry list \<Rightarrow>
   ValidationSummary \<Rightarrow> error + xlsxFile" where
  "generateEnhancedExcelOutput saveErr matchingEntries missingInFirstEntries
       missingInSecondEntries sm =
     (let f0 = NewSheet NewFile resultsSheet;
          f1 = writeHeaders headers 0 f0;
          (row1, f2) = writeEntries ''Both'' ''Matching'' matchingEntries (2, f1);
          (row2, f3) = writeEntries ''Second File Only'' ''Missing in First File''
                         missingInFirstEntries (row1, f2);
          (row3, f4) = writeEntries ''First File Only'' ''Missing in Second File''
                         missingInSecondEntries (row2, f3);
          f5 = NewSheet f4 summarySheet;
          f6 = SetCellValue (SetCellValue f5 summarySheet ''A'' 1 (Text ''Metric''))
                 summarySheet ''B'' 1 (Text ''Value'');
          f7 = writeSummary (zip summaryLabels (summaryValues sm)) 0 f6;
          f8 = DeleteSheet f7 ''Sheet1''
      in case saveErr of Some err \<Rightarrow> Inl err | None \<Rightarrow> Inr f8)"

section \<open>The cache (package utils)\<close>

text \<open>
  The clock is explicit: every operation that calls \<open>time.Now()\<close> takes its reading
  \<open>now\<close>, an integer count of nanoseconds; a duration is an integer too. Each method
  runs under the lock of the cache, so it is one atomic step on the map. \<open>Get\<close> on an
  expired item starts a goroutine that deletes the key later: the third component of
  its result is that pending deletion, which \<open>runDeferred\<close> carries out.
\<close>

record 'v cacheItem =
  val :: 'v
  expiration :: int

type_synonym 'v Cache = "string \<rightharpoonup> 'v cacheItem"

definition NewCache :: "'v Cache" where
  "NewCache = Map.empty"

definition Cache_Set :: "int \<Rightarrow> 'v Cache \<Rightarrow> string \<Rightarrow> 'v \<Rightarrow> int \<Rightarrow> 'v Cache" where
  "Cache_Set now c key v ttl = c(key \<mapsto> \<lparr> val = v, expiration = now + ttl \<rparr>)"

definition Cache_Get :: "int \<Rightarrow> 'v Cache \<Rightarrow> string \<Rightarrow> 'v option \<times> bool \<times> string option" where
  "Cache_Get now c key =
     (case c key of
        None \<Rightarrow> (None, False, None)
      | Some item \<Rightarrow>
          (if now > expiration item then (None, False, Some key)
           else (Some (val item), True, None)))"

definition Cache_Delete :: "'v Cache \<Rightarrow> string \<Rightarrow> 'v Cache" where
  "Cache_Delete c key = c(key := None)"

definition Cache_Clear :: "'v Cache \<Rightarrow> 'v Cache" where
  "Cache_Clear c = Map.empty"

definition runDeferred :: "'v Cache \<Rightarrow> string option \<Rightarrow> 'v Cache" where
  "runDeferred c deferred = (case deferred of None \<Rightarrow> c | Some key \<Rightarrow> Cache_Delete c key)"

section \<open>The words of the specification, for comparison with the code\<close>

definition localPart :: "string \<Rightarrow> string" where
  "localPart e = takeWhile (\<lambda>c. c \<noteq> CHR ''@'') e"

definition domainPart :: "string \<Rightarrow> string" where
  "domainPart e = drop 1 (dropWhile (\<lambda>c. c \<noteq> CHR ''@'') e)"

text \<open>
  Section 4.2 of the specification: trim, lowercase; with a single \<open>@\<close> and the domain
  \<open>gmail.com\<close>, strip the dots of the local part, then cut it at the first \<open>+\<close> unless
  that \<open>+\<close> is its first character.
\<close>

definition normalize_spec :: "(string \<Rightarrow> string) \<Rightarrow> string \<Rightarrow> string" where
  "normalize_spec unicodeLower x =
     (let e = ToLower unicodeLower (TrimSpace x)
      in if count_list e CHR ''@'' = 1 \<and> domainPart e = ''gmail.com'' then
           (let stripped = filter (\<lambda>c. c \<noteq> CHR ''.'') (localPart e);
                truncated = (if CHR ''+'' \<in> set stripped \<and> hd stripped \<noteq> CHR ''+''
                             then takeWhile (\<lambda>c. c \<noteq> CHR ''+'') stripped else stripped)
            in truncated @ ''@gmail.com'')
         else e)"

text \<open>The keys of a list of entries, and the entry that the map of
  \<open>compareEmailEntries\<close> keeps for a key: the last one in input order.\<close>

definition keysOf :: "EmailEntry list \<Rightarrow> string list" where
  "keysOf entries = map NormalizedEmail entries"

definition lastWithKey :: "EmailEntry list \<Rightarrow> string \<Rightarrow> EmailEntry" where
  "lastWithKey entries k = last (filter (\<lambda>e. NormalizedEmail e = k) entries)"

text \<open>Section 4.4 of the specification on the order of \<open>onlyInA\<close>: the first file's
  entries in input order, without those whose key the second file has.\<close>

definition inputOrderOnlyInA :: "EmailEntry list \<Rightarrow> EmailEntry list \<Rightarrow> EmailEntry list" where
  "inputOrderOnlyInA firstEntries secondEntries =
     filter (\<lambda>e. NormalizedEmail e \<notin> set (keysOf secondEntries)) firstEntries"

text \<open>The two files of the end-to-end scenario of the specification.\<close>

definition firstFile :: "EmailEntry list" where
  "firstFile = map (entryOf ''First File'') [''a@x.com'', ''b@x.com'']"

definition secondFile :: "EmailEntry list" where
  "secondFile = map (entryOf ''Second File'') [''b@x.com'', ''c@x.com'']"

text \<open>A file system for the examples: an empty file, a CSV file whose third line has
  one field where the header has two, and a well-formed one.\<close>

definition demoFiles :: fileSystem where
  "demoFiles =
     [''empty.csv'' \<mapsto> \<lparr> csvLines = [], workbook = None \<rparr>,
      ''empty.xlsx'' \<mapsto> \<lparr> csvLines = [], workbook = None \<rparr>,
      ''ragged.csv'' \<mapsto>
        \<lparr> csvLines = [Fields [''email'', ''name''], Fields [''a@x.com'', ''A''],
                       Fields [''b@x.com'']],
          workbook = None \<rparr>,
      ''good.CSV'' \<mapsto>
        \<lparr> csvLines = [Fields [''email'', ''name''], Fields [''a@x.com'', ''A''],
                       Fields [''not an address'', ''B''], Fields [''b@x.com'', ''C'']],
          workbook = None \<rparr>]"

text \<open>Spreadsheets for the examples: a workbook whose third row has one cell where the
  header has two, a workbook whose first sheet has no rows, and a CSV file that holds
  a header and nothing else.\<close>

definition demoSheets :: fileSystem where
  "demoSheets =
     [''ragged.xlsx'' \<mapsto>
        \<lparr> csvLines = [BadLine],
          workbook = Some [Sheet [Columns [''email'', ''name''], Columns [''a@x.com'', ''A''],
                                  Columns [''b@x.com'']]] \<rparr>,
      ''blank.xlsx'' \<mapsto> \<lparr> csvLines = [BadLine], workbook = Some [Sheet []] \<rparr>,
      ''header.csv'' \<mapsto> \<lparr> csvLines = [Fields [''email'', ''name'']], workbook = None \<rparr>]"

section \<open>Properties of the string functions\<close>

lemmas string_eval =
  TrimSpace_def ToLower_def isASCII_def lowerByte_def asciiSpace_def space2_def space3_def
  Replace_def Let_def char_of_def bit_Suc_0_iff bit_0 noUnicode_def

lemma length_Split: "length (Split s sep) = Suc (count_list s sep)"
  by (induction s) (auto split: list.splits)

lemma Split_nonempty: "Split s sep \<noteq> []"
  by (induction s) (auto split: list.splits)

lemma Split_no_sep: "sep \<notin> set s \<Longrightarrow> Split s sep = [s]"
  by (induction s) auto

lemma Split_one_sep:
  "count_list s sep = 1 \<Longrightarrow>
   Split s sep = [takeWhile (\<lambda>c. c \<noteq> sep) s, drop 1 (dropWhile (\<lambda>c. c \<noteq> sep) s)]"
proof (induction s)
  case Nil
  then show ?case by simp
next
  case (Cons c s)
  show ?case
  proof (cases "c = sep")
    case True
    with Cons.prems have "count_list s sep = 0" by simp
    then have "sep \<notin> set s" by (simp add: count_list_0_iff)
    with True show ?thesis by (simp add: Split_no_sep)
  next
    case False
    with Cons show ?thesis by simp
  qed
qed

lemma Replace_delete: "Replace s old [] = filter (\<lambda>c. c \<noteq> old) s"
  by (induction s) (auto simp: Replace_def)

lemma Index_neg_iff: "Index s c < 0 \<longleftrightarrow> c \<notin> set s"
  by (induction s) (auto simp: Let_def)

lemma Index_range: "Index s c = - 1 \<or> 0 \<le> Index s c"
  by (induction s) (auto simp: Let_def)

lemma Index_pos_iff: "0 < Index s c \<longleftrightarrow> c \<in> set s \<and> hd s \<noteq> c"
proof (cases s)
  case Nil
  then show ?thesis by simp
next
  case (Cons x t)
  have "0 \<le> Index t c \<or> Index t c < 0" by linarith
  then show ?thesis using Cons Index_neg_iff [of t c]
    by (auto simp: Let_def)
qed

lemma take_Index: "c \<in> set s \<Longrightarrow> take (nat (Index s c)) s = takeWhile (\<lambda>x. x \<noteq> c) s"
proof (induction s)
  case Nil
  then show ?case by simp
next
  case (Cons x t)
  show ?case
  proof (cases "x = c")
    case True
    then show ?thesis by simp
  next
    case False
    with Cons.prems have in_t: "c \<in> set t" by simp
    then have "\<not> Index t c < 0" by (simp add: Index_neg_iff)
    then have "nat (Index t c + 1) = Suc (nat (Index t c))" by simp
    with False in_t Cons.IH show ?thesis by (simp add: Let_def Index_neg_iff)
  qed
qed

lemma NormalizeEmail_refines: "NormalizeEmail ul x = normalize_spec ul x"
proof -
  define e where "e = ToLower ul (TrimSpace x)"
  show ?thesis
  proof (cases "count_list e CHR ''@'' = 1")
    case True
    then have sp: "Split e CHR ''@'' = [localPart e, domainPart e]"
      by (simp add: Split_one_sep localPart_def domainPart_def)
    show ?thesis
      using True sp
      by (simp add: NormalizeEmail_def normalize_spec_def e_def [symmetric] Let_def
          Replace_delete Index_pos_iff take_Index)
  next
    case False
    then have "length (Split e CHR ''@'') \<noteq> 2" by (simp add: length_Split)
    with False show ?thesis
      by (simp add: NormalizeEmail_def normalize_spec_def e_def [symmetric] Let_def)
  qed
qed

lemmas entry_eval =
  entryOf_def toEntry_def ValidateEmailDetailed_def NormalizeEmail_def string_eval

section \<open>The validator and the normalizer\<close>

text \<open>
  Claim C4. For every string \<open>x\<close>, the verdict \<open>IsValid\<close> of \<open>ValidateEmailDetailed\<close> is
  true exactly when the trimmed \<open>x\<close> is not empty and splits on \<open>@\<close> into exactly two
  parts, which is to say when it holds exactly one \<open>@\<close>. Nothing else enters the
  verdict: \<open>A@B\<close> is valid, \<open>no-at-sign\<close> and \<open>a@b@c\<close> are not.
\<close>

theorem shallow_validity:
  "vIsValid (ValidateEmailDetailed ul x) =
     (TrimSpace x \<noteq> [] \<and> length (Split (TrimSpace x) CHR ''@'') = 2)
   \<and> vIsValid (ValidateEmailDetailed ul x) = (count_list (TrimSpace x) CHR ''@'' = 1)
   \<and> vIsValid (ValidateEmailDetailed ul ''A@B'')
   \<and> \<not> vIsValid (ValidateEmailDetailed ul ''no-at-sign'')
   \<and> \<not> vIsValid (ValidateEmailDetailed ul ''a@b@c'')"
proof -
  have a: "vIsValid (ValidateEmailDetailed ul x) =
     (TrimSpace x \<noteq> [] \<and> length (Split (TrimSpace x) CHR ''@'') = 2)"
    by (simp add: ValidateEmailDetailed_def Let_def)
  have b: "(TrimSpace x \<noteq> [] \<and> length (Split (TrimSpace x) CHR ''@'') = 2)
      = (count_list (TrimSpace x) CHR ''@'' = 1)"
  proof -
    have "count_list (TrimSpace x) CHR ''@'' = 1 \<Longrightarrow> TrimSpace x \<noteq> []" by auto
    then show ?thesis by (auto simp only: length_Split)
  qed
  have c: "vIsValid (ValidateEmailDetailed ul ''A@B'')
   \<and> \<not> vIsValid (ValidateEmailDetailed ul ''no-at-sign'')
   \<and> \<not> vIsValid (ValidateEmailDetailed ul ''a@b@c'')"
    by (simp add: ValidateEmailDetailed_def string_eval)
  from a b c show ?thesis by simp
qed

text \<open>
  Claim C5. For every string \<open>x\<close>, \<open>NormalizeEmail\<close> computes what section 4.2 of the
  specification describes (\<open>normalize_spec\<close>): trim and lowercase; when the result
  holds exactly one \<open>@\<close> and its domain is \<open>gmail.com\<close>, remove the dots of the local
  part and then cut it at its first \<open>+\<close> unless that \<open>+\<close> is its first character. A
  string whose trimmed lowercase form has no \<open>@\<close> or more than one is only trimmed and
  lowercased, and \<open>" First.Last+promo@gmail.com "\<close> becomes \<open>"firstlast@gmail.com"\<close>.
\<close>

theorem normalize_as_specified:
  "NormalizeEmail ul x = normalize_spec ul x
   \<and> (count_list (ToLower ul (TrimSpace x)) CHR ''@'' \<noteq> 1 \<longrightarrow>
        NormalizeEmail ul x = ToLower ul (TrimSpace x))
   \<and> NormalizeEmail ul '' First.Last+promo@gmail.com '' = ''firstlast@gmail.com''"
proof -
  have a: "NormalizeEmail ul x = normalize_spec ul x"
    by (rule NormalizeEmail_refines)
  have b: "count_list (ToLower ul (TrimSpace x)) CHR ''@'' \<noteq> 1 \<longrightarrow>
        NormalizeEmail ul x = ToLower ul (TrimSpace x)"
    by (simp add: a normalize_spec_def Let_def)
  have c: "NormalizeEmail ul '' First.Last+promo@gmail.com '' = ''firstlast@gmail.com''"
    by (simp add: NormalizeEmail_def string_eval)
  from a b c show ?thesis by simp
qed

theorem normalize_as_specified_witness:
  "count_list (ToLower noUnicode (TrimSpace ''a@b@C'')) CHR ''@'' \<noteq> 1
   \<and> NormalizeEmail noUnicode ''a@b@C'' = normalize_spec noUnicode ''a@b@C''
   \<and> NormalizeEmail noUnicode ''a@b@C'' = ToLower noUnicode (TrimSpace ''a@b@C'')
   \<and> ToLower noUnicode (TrimSpace ''a@b@C'') = ''a@b@c''"
proof -
  have h: "ToLower noUnicode (TrimSpace ''a@b@C'') = ''a@b@c''"
    by (simp add: string_eval)
  then have n: "count_list (ToLower noUnicode (TrimSpace ''a@b@C'')) CHR ''@'' \<noteq> 1"
    by simp
  from normalize_as_specified [of noUnicode "''a@b@C''"] n h show ?thesis
    by blast
qed

text \<open>
  Claim C6 (idempotence of \<open>NormalizeEmail\<close>) fails in the code. On the \<open>gmail.com\<close>
  branch the dots are removed after the trimming, so white space that stood behind a
  leading dot becomes the head of the result, and a second pass trims it:
  \<open>". a@gmail.com"\<close> is normalized to \<open>" a@gmail.com"\<close>, and that to \<open>"a@gmail.com"\<close>.
\<close>

theorem normalize_twice_differs:
  "NormalizeEmail ul ''. a@gmail.com'' = '' a@gmail.com''
   \<and> NormalizeEmail ul (NormalizeEmail ul ''. a@gmail.com'') = ''a@gmail.com''
   \<and> NormalizeEmail ul (NormalizeEmail ul ''. a@gmail.com'') \<noteq> NormalizeEmail ul ''. a@gmail.com''
   \<and> vIsValid (ValidateEmailDetailed ul ''. a@gmail.com'')"
  by (simp add: ValidateEmailDetailed_def NormalizeEmail_def string_eval)

section \<open>Properties of the comparator loops\<close>

lemma firstLoop_fields:
  "secondMap (firstLoop A st) = secondMap st \<and> matching (firstLoop A st) = matching st \<and>
   missingInFirst (firstLoop A st) = missingInFirst st \<and>
   missingInSecond (firstLoop A st) = missingInSecond st \<and>
   DisposableEmailsCount (summary (firstLoop A st)) = DisposableEmailsCount (summary st)"
  by (induction A arbitrary: st) auto

lemma lastWithKey_Cons:
  "lastWithKey (e # A) k =
     (if k \<in> set (keysOf A) then lastWithKey A k else if NormalizedEmail e = k then e else lastWithKey A k)"
proof -
  have "k \<in> set (keysOf A) \<longleftrightarrow> filter (\<lambda>e. NormalizedEmail e = k) A \<noteq> []"
    by (auto simp: keysOf_def filter_empty_conv)
  then show ?thesis by (auto simp: lastWithKey_def)
qed

lemma firstLoop_firstMap:
  "firstMap (firstLoop A st) k =
     (if k \<in> set (keysOf A) then Some (lastWithKey A k) else firstMap st k)"
proof (induction A arbitrary: st)
  case Nil
  then show ?case by (simp add: keysOf_def)
next
  case (Cons e A)
  show ?case
    by (simp add: Cons.IH lastWithKey_Cons) (auto simp: keysOf_def)
qed

lemma secondLoop_fields:
  "firstMap (secondLoop B st) = firstMap st \<and>
   missingInSecond (secondLoop B st) = missingInSecond st \<and>
   DisposableEmailsCount (summary (secondLoop B st)) = DisposableEmailsCount (summary st)"
  by (induction B arbitrary: st) (auto simp: Let_def split: option.splits)

lemma secondLoop_matching:
  "matching (secondLoop B st) =
     matching st @ map (\<lambda>e. the (firstMap st (NormalizedEmail e)))
                     (filter (\<lambda>e. firstMap st (NormalizedEmail e) \<noteq> None) B)"
  by (induction B arbitrary: st) (auto simp: Let_def split: option.splits)

lemma secondLoop_missingInFirst:
  "missingInFirst (secondLoop B st) =
     missingInFirst st @ filter (\<lambda>e. firstMap st (NormalizedEmail e) = None) B"
  by (induction B arbitrary: st) (auto simp: Let_def split: option.splits)

lemma secondLoop_secondMap:
  "secondMap (secondLoop B st) k = None \<longleftrightarrow> secondMap st k = None \<and> k \<notin> set (keysOf B)"
  by (induction B arbitrary: st) (auto simp: Let_def keysOf_def split: option.splits)

lemma thirdLoop_fields:
  "matching (thirdLoop ks st) = matching st \<and> missingInFirst (thirdLoop ks st) = missingInFirst st \<and>
   summary (thirdLoop ks st) = summary st"
  by (induction ks arbitrary: st) (auto split: option.splits)

lemma thirdLoop_maps:
  "firstMap (thirdLoop ks st) = firstMap st \<and> secondMap (thirdLoop ks st) = secondMap st"
  by (induction ks arbitrary: st) (auto split: option.splits)

lemma thirdLoop_missingInSecond:
  "missingInSecond (thirdLoop ks st) =
     missingInSecond st @ map (\<lambda>k. the (firstMap st k))
                            (filter (\<lambda>k. firstMap st k \<noteq> None \<and> secondMap st k = None) ks)"
proof (induction ks arbitrary: st)
  case Nil
  then show ?case by simp
next
  case (Cons k ks)
  show ?case
    by (cases "firstMap st k") (auto simp: Cons.IH)
qed

lemma map_filter_cong_aux:
  "(\<And>x. x \<in> set xs \<Longrightarrow> P x = Q x) \<Longrightarrow> (\<And>x. x \<in> set xs \<Longrightarrow> Q x \<Longrightarrow> f x = g x) \<Longrightarrow>
   map f (filter P xs) = map g (filter Q xs)"
  by (induction xs) auto

lemma compare_lists:
  assumes "compareEmailEntries ks A B = (m, mf, ms, sm)"
  shows "m = map (\<lambda>e. lastWithKey A (NormalizedEmail e))
                 (filter (\<lambda>e. NormalizedEmail e \<in> set (keysOf A)) B)"
    and "mf = filter (\<lambda>e. NormalizedEmail e \<notin> set (keysOf A)) B"
    and "ms = map (lastWithKey A)
                 (filter (\<lambda>k. k \<in> set (keysOf A) \<and> k \<notin> set (keysOf B)) ks)"
    and "DisposableEmailsCount sm = 0"
    and "MatchingCount sm = int (length m)"
    and "MissingInFirstCount sm = int (length mf)"
    and "MissingInSecondCount sm = int (length ms)"
proof -
  define st0 :: compareState where "st0 = \<lparr> summary = \<lparr> TotalEmailsFirstFile = int (length A),
                               TotalEmailsSecondFile = int (length B),
                               ValidEmailsFirstFile = 0, ValidEmailsSecondFile = 0,
                               MatchingCount = 0, MissingInFirstCount = 0,
                               MissingInSecondCount = 0, DisposableEmailsCount = 0 \<rparr>,
                   firstMap = Map.empty, secondMap = Map.empty,
                   matching = [], missingInFirst = [], missingInSecond = [] \<rparr>"
  define st1 where "st1 = firstLoop A st0"
  define st2 where "st2 = secondLoop B st1"
  define st3 where "st3 = thirdLoop ks st2"
  have res: "m = matching st3" "mf = missingInFirst st3" "ms = missingInSecond st3"
    "sm = (summary st3)\<lparr> MatchingCount := int (length (matching st3)),
                          MissingInFirstCount := int (length (missingInFirst st3)),
                          MissingInSecondCount := int (length (missingInSecond st3)) \<rparr>"
  proof -
    have "compareEmailEntries ks A B = (matching st3, missingInFirst st3, missingInSecond st3,
       (summary st3)\<lparr> MatchingCount := int (length (matching st3)),
                          MissingInFirstCount := int (length (missingInFirst st3)),
                          MissingInSecondCount := int (length (missingInSecond st3)) \<rparr>)"
      by (simp add: compareEmailEntries_def Let_def st0_def st1_def st2_def st3_def)
    with assms show "m = matching st3" "mf = missingInFirst st3" "ms = missingInSecond st3"
    "sm = (summary st3)\<lparr> MatchingCount := int (length (matching st3)),
                          MissingInFirstCount := int (length (missingInFirst st3)),
                          MissingInSecondCount := int (length (missingInSecond st3)) \<rparr>"
      by auto
  qed
  have fm1: "firstMap st1 k = (if k \<in> set (keysOf A) then Some (lastWithKey A k) else None)" for k
    by (simp add: st1_def firstLoop_firstMap st0_def)
  have fm2: "firstMap st2 = firstMap st1"
    by (simp add: st2_def secondLoop_fields)
  have sm2: "secondMap st2 k = None \<longleftrightarrow> k \<notin> set (keysOf B)" for k
    by (simp add: st2_def secondLoop_secondMap st1_def firstLoop_fields st0_def)
  have "matching st3 = matching st2" by (simp add: st3_def thirdLoop_fields)
  also have "\<dots> = map (\<lambda>e. the (firstMap st1 (NormalizedEmail e)))
                     (filter (\<lambda>e. firstMap st1 (NormalizedEmail e) \<noteq> None) B)"
    by (simp add: st2_def secondLoop_matching) (simp add: st1_def firstLoop_fields st0_def)
  also have "\<dots> = map (\<lambda>e. lastWithKey A (NormalizedEmail e))
                 (filter (\<lambda>e. NormalizedEmail e \<in> set (keysOf A)) B)"
    by (rule map_filter_cong_aux) (simp_all add: fm1)
  finally show "m = map (\<lambda>e. lastWithKey A (NormalizedEmail e))
                 (filter (\<lambda>e. NormalizedEmail e \<in> set (keysOf A)) B)"
    using res by simp
  have "missingInFirst st3 = filter (\<lambda>e. firstMap st1 (NormalizedEmail e) = None) B"
    by (simp add: st3_def thirdLoop_fields st2_def secondLoop_missingInFirst)
       (simp add: st1_def firstLoop_fields st0_def)
  also have "\<dots> = filter (\<lambda>e. NormalizedEmail e \<notin> set (keysOf A)) B"
    by (rule filter_cong) (simp_all add: fm1)
  finally show "mf = filter (\<lambda>e. NormalizedEmail e \<notin> set (keysOf A)) B"
    using res by simp
  have "missingInSecond st3 = map (\<lambda>k. the (firstMap st2 k))
          (filter (\<lambda>k. firstMap st2 k \<noteq> None \<and> secondMap st2 k = None) ks)"
    by (simp add: st3_def thirdLoop_missingInSecond)
       (simp add: st2_def secondLoop_fields st1_def firstLoop_fields st0_def)
  also have "\<dots> = map (lastWithKey A)
                 (filter (\<lambda>k. k \<in> set (keysOf A) \<and> k \<notin> set (keysOf B)) ks)"
    by (rule map_filter_cong_aux) (simp_all add: fm1 fm2 sm2)
  finally show "ms = map (lastWithKey A)
                 (filter (\<lambda>k. k \<in> set (keysOf A) \<and> k \<notin> set (keysOf B)) ks)"
    using res by simp
  show "DisposableEmailsCount sm = 0"
    by (simp add: res st3_def thirdLoop_fields st2_def secondLoop_fields st1_def firstLoop_fields st0_def)
  show "MatchingCount sm = int (length m)" "MissingInFirstCount sm = int (length mf)"
    "MissingInSecondCount sm = int (length ms)"
    by (simp_all add: res)
qed

lemma count_list_filter:
  "count_list (filter P xs) k = (if P k then count_list xs k else 0)"
  by (induction xs) auto

lemma count_list_distinct:
  "distinct xs \<Longrightarrow> count_list xs k = (if k \<in> set xs then 1 else 0)"
  by (induction xs) auto

lemma key_lastWithKey:
  "k \<in> set (keysOf A) \<Longrightarrow> NormalizedEmail (lastWithKey A k) = k"
proof -
  assume "k \<in> set (keysOf A)"
  then have ne: "filter (\<lambda>e. NormalizedEmail e = k) A \<noteq> []"
    by (auto simp: keysOf_def filter_empty_conv)
  then have "last (filter (\<lambda>e. NormalizedEmail e = k) A) \<in> set (filter (\<lambda>e. NormalizedEmail e = k) A)"
    by (rule last_in_set)
  then show ?thesis by (simp add: lastWithKey_def)
qed

lemma compare_keys:
  assumes "compareEmailEntries ks A B = (m, mf, ms, sm)"
  shows "keysOf m = filter (\<lambda>k. k \<in> set (keysOf A)) (keysOf B)"
    and "keysOf mf = filter (\<lambda>k. k \<notin> set (keysOf A)) (keysOf B)"
    and "keysOf ms = filter (\<lambda>k. k \<in> set (keysOf A) \<and> k \<notin> set (keysOf B)) ks"
proof -
  note cl = compare_lists [OF assms]
  show "keysOf m = filter (\<lambda>k. k \<in> set (keysOf A)) (keysOf B)"
    unfolding cl(1) by (induction B) (auto simp: keysOf_def key_lastWithKey [unfolded keysOf_def])
  show "keysOf mf = filter (\<lambda>k. k \<notin> set (keysOf A)) (keysOf B)"
    unfolding cl(2) by (induction B) (auto simp: keysOf_def)
  show "keysOf ms = filter (\<lambda>k. k \<in> set (keysOf A) \<and> k \<notin> set (keysOf B)) ks"
    unfolding cl(3) by (induction ks) (auto simp: keysOf_def key_lastWithKey [unfolded keysOf_def])
qed

lemma entryOf_a: "entryOf src ''a@x.com'' =
    \<lparr> Email = ''a@x.com'', Source = src, IsValid = True, IsDisposable = False,
      NormalizedEmail = ''a@x.com'', Status = ''Valid'', Reason = [] \<rparr>"
  by (simp add: entry_eval)

lemma entryOf_b: "entryOf src ''b@x.com'' =
    \<lparr> Email = ''b@x.com'', Source = src, IsValid = True, IsDisposable = False,
      NormalizedEmail = ''b@x.com'', Status = ''Valid'', Reason = [] \<rparr>"
  by (simp add: entry_eval)

lemma entryOf_c: "entryOf src ''c@x.com'' =
    \<lparr> Email = ''c@x.com'', Source = src, IsValid = True, IsDisposable = False,
      NormalizedEmail = ''c@x.com'', Status = ''Valid'', Reason = [] \<rparr>"
  by (simp add: entry_eval)

lemma entryOf_upper: "entryOf src ''A@x.com'' =
    \<lparr> Email = ''A@x.com'', Source = src, IsValid = True, IsDisposable = False,
      NormalizedEmail = ''a@x.com'', Status = ''Valid'', Reason = [] \<rparr>"
  by (simp add: entry_eval)

lemmas entries = entryOf_a entryOf_b entryOf_c entryOf_upper firstFile_def secondFile_def

lemma firstLoop_summary:
  "summary (firstLoop A st) =
     (summary st)\<lparr> ValidEmailsFirstFile :=
        ValidEmailsFirstFile (summary st) + int (length (filter IsValid A)) \<rparr>"
  by (induction A arbitrary: st) auto

lemma secondLoop_summary:
  "summary (secondLoop B st) =
     (summary st)\<lparr> ValidEmailsSecondFile :=
        ValidEmailsSecondFile (summary st) + int (length (filter IsValid B)) \<rparr>"
  by (induction B arbitrary: st) (auto simp: Let_def split: option.splits)

lemma compare_eq:
  "compareEmailEntries ks A B =
    (map (\<lambda>e. lastWithKey A (NormalizedEmail e))
       (filter (\<lambda>e. NormalizedEmail e \<in> set (keysOf A)) B),
     filter (\<lambda>e. NormalizedEmail e \<notin> set (keysOf A)) B,
     map (lastWithKey A) (filter (\<lambda>k. k \<in> set (keysOf A) \<and> k \<notin> set (keysOf B)) ks),
     \<lparr> TotalEmailsFirstFile = int (length A), TotalEmailsSecondFile = int (length B),
       ValidEmailsFirstFile = int (length (filter IsValid A)),
       ValidEmailsSecondFile = int (length (filter IsValid B)),
       MatchingCount = int (length (filter (\<lambda>e. NormalizedEmail e \<in> set (keysOf A)) B)),
       MissingInFirstCount = int (length (filter (\<lambda>e. NormalizedEmail e \<notin> set (keysOf A)) B)),
       MissingInSecondCount =
         int (length (filter (\<lambda>k. k \<in> set (keysOf A) \<and> k \<notin> set (keysOf B)) ks)),
       DisposableEmailsCount = 0 \<rparr>)"
proof -
  obtain m mf ms sm where r: "compareEmailEntries ks A B = (m, mf, ms, sm)"
    by (cases "compareEmailEntries ks A B") auto
  note cl = compare_lists [OF r]
  define st0 :: compareState where "st0 = \<lparr> summary = \<lparr> TotalEmailsFirstFile = int (length A),
                               TotalEmailsSecondFile = int (length B),
                               ValidEmailsFirstFile = 0, ValidEmailsSecondFile = 0,
                               MatchingCount = 0, MissingInFirstCount = 0,
                               MissingInSecondCount = 0, DisposableEmailsCount = 0 \<rparr>,
                   firstMap = Map.empty, secondMap = Map.empty,
                   matching = [], missingInFirst = [], missingInSecond = [] \<rparr>"
  have s3: "summary (thirdLoop ks (secondLoop B (firstLoop A st0))) =
     \<lparr> TotalEmailsFirstFile = int (length A), TotalEmailsSecondFile = int (length B),
       ValidEmailsFirstFile = int (length (filter IsValid A)),
       ValidEmailsSecondFile = int (length (filter IsValid B)),
       MatchingCount = 0, MissingInFirstCount = 0,
       MissingInSecondCount = 0, DisposableEmailsCount = 0 \<rparr>"
    by (simp add: thirdLoop_fields secondLoop_summary firstLoop_summary) (simp add: st0_def)
  have "sm = (summary (thirdLoop ks (secondLoop B (firstLoop A st0))))
      \<lparr> MatchingCount := int (length m), MissingInFirstCount := int (length mf),
        MissingInSecondCount := int (length ms) \<rparr>"
    using r by (simp add: compareEmailEntries_def Let_def st0_def [symmetric]) auto
  then have "sm = \<lparr> TotalEmailsFirstFile = int (length A), TotalEmailsSecondFile = int (length B),
       ValidEmailsFirstFile = int (length (filter IsValid A)),
       ValidEmailsSecondFile = int (length (filter IsValid B)),
       MatchingCount = int (length m), MissingInFirstCount = int (length mf),
       MissingInSecondCount = int (length ms), DisposableEmailsCount = 0 \<rparr>"
    by (simp add: s3)
  then show ?thesis
    unfolding r using cl(1) cl(2) cl(3) by simp
qed

lemmas compare_eval = compare_eq lastWithKey_def keysOf_def entries

lemma compare_run:
  "compareEmailEntries [''b@x.com'', ''a@x.com''] firstFile secondFile =
     ([entryOf ''First File'' ''b@x.com''], [entryOf ''Second File'' ''c@x.com''],
      [entryOf ''First File'' ''a@x.com''],
      \<lparr> TotalEmailsFirstFile = 2, TotalEmailsSecondFile = 2, ValidEmailsFirstFile = 2,
        ValidEmailsSecondFile = 2, MatchingCount = 1, MissingInFirstCount = 1,
        MissingInSecondCount = 1, DisposableEmailsCount = 0 \<rparr>)"
  by (simp add: compare_eval)

lemma iterationOrder_firstFile: "iterationOrder [''b@x.com'', ''a@x.com''] firstFile"
  by (simp add: iterationOrder_def entries insert_commute)

section \<open>The comparator\<close>

text \<open>
  In the theorems below \<open>matched\<close>, \<open>onlyInB\<close> and \<open>onlyInA\<close> are the three slices that
  \<open>compareEmailEntries\<close> returns, in that order: \<open>matching\<close>, \<open>missingInFirst\<close> (the
  entries only the second file has) and \<open>missingInSecond\<close> (only the first file).
\<close>

text \<open>
  Claim C1, as stated, fails: the second loop appends once for every entry of the
  second file, so a key that two entries of the second file share is emitted twice.
  Here the first file holds \<open>a@x.com\<close> and the second \<open>a@x.com\<close> and \<open>A@x.com\<close>, which
  have the same normalized key: \<open>matched\<close> carries that key twice.
\<close>

theorem compare_partition_counterexample:
  "iterationOrder [''a@x.com''] [entryOf ''First File'' ''a@x.com'']
   \<and> ''a@x.com'' \<in> set (keysOf [entryOf ''First File'' ''a@x.com''])
   \<and> ''a@x.com'' \<in> set (keysOf [entryOf ''Second File'' ''a@x.com'', entryOf ''Second File'' ''A@x.com''])
   \<and> count_list
        (keysOf (fst (compareEmailEntries [''a@x.com''] [entryOf ''First File'' ''a@x.com'']
            [entryOf ''Second File'' ''a@x.com'', entryOf ''Second File'' ''A@x.com''])))
        ''a@x.com'' = 2"
  by (simp add: iterationOrder_def compare_eval)

text \<open>
  Claim C1, amended. For all lists \<open>A\<close> and \<open>B\<close> and every iteration order of the first
  file's map: a key of \<open>A\<close> occurs in \<open>matched\<close> as often as it occurs in \<open>B\<close>, a key
  that \<open>A\<close> lacks occurs in \<open>onlyInB\<close> as often as it occurs in \<open>B\<close>, and a key of \<open>A\<close>
  that \<open>B\<close> lacks occurs exactly once in \<open>onlyInA\<close>; no other key occurs in any of
  them, and the three slices are pairwise disjoint by key. When the keys of \<open>B\<close> are
  pairwise distinct, every key present in both files occurs exactly once in \<open>matched\<close>
  and every key only in \<open>B\<close> exactly once in \<open>onlyInB\<close>.
\<close>

theorem compare_partition:
  assumes "iterationOrder order A"
    and "compareEmailEntries order A B = (matched, onlyInB, onlyInA, sm)"
  shows "count_list (keysOf matched) k =
           (if k \<in> set (keysOf A) then count_list (keysOf B) k else 0)
       \<and> count_list (keysOf onlyInB) k =
           (if k \<in> set (keysOf A) then 0 else count_list (keysOf B) k)
       \<and> count_list (keysOf onlyInA) k =
           (if k \<in> set (keysOf A) \<and> k \<notin> set (keysOf B) then 1 else 0)
       \<and> set (keysOf matched) \<inter> set (keysOf onlyInB) = {}
       \<and> set (keysOf matched) \<inter> set (keysOf onlyInA) = {}
       \<and> set (keysOf onlyInB) \<inter> set (keysOf onlyInA) = {}
       \<and> (distinct (keysOf B) \<longrightarrow>
            count_list (keysOf matched) k =
              (if k \<in> set (keysOf A) \<and> k \<in> set (keysOf B) then 1 else 0) \<and>
            count_list (keysOf onlyInB) k =
              (if k \<notin> set (keysOf A) \<and> k \<in> set (keysOf B) then 1 else 0))"
proof -
  note ck = compare_keys [OF assms(2)]
  from assms(1) have d: "distinct order" and s: "set order = set (keysOf A)"
    by (simp_all add: iterationOrder_def keysOf_def)
  have c1: "count_list (keysOf matched) k =
           (if k \<in> set (keysOf A) then count_list (keysOf B) k else 0)"
    by (simp add: ck(1) count_list_filter)
  have c2: "count_list (keysOf onlyInB) k =
           (if k \<in> set (keysOf A) then 0 else count_list (keysOf B) k)"
    by (simp add: ck(2) count_list_filter)
  have c3: "count_list (keysOf onlyInA) k =
           (if k \<in> set (keysOf A) \<and> k \<notin> set (keysOf B) then 1 else 0)"
    using s by (simp add: ck(3) count_list_filter count_list_distinct [OF d])
  have d1: "set (keysOf matched) \<inter> set (keysOf onlyInB) = {}"
    by (auto simp: ck)
  have d2: "set (keysOf matched) \<inter> set (keysOf onlyInA) = {}"
    by (auto simp: ck)
  have d3: "set (keysOf onlyInB) \<inter> set (keysOf onlyInA) = {}"
    by (auto simp: ck)
  have c4: "distinct (keysOf B) \<longrightarrow>
            count_list (keysOf matched) k =
              (if k \<in> set (keysOf A) \<and> k \<in> set (keysOf B) then 1 else 0) \<and>
            count_list (keysOf onlyInB) k =
              (if k \<notin> set (keysOf A) \<and> k \<in> set (keysOf B) then 1 else 0)"
    by (simp add: c1 c2 count_list_distinct)
  from c1 c2 c3 d1 d2 d3 c4 show ?thesis by blast
qed

theorem compare_partition_witness:
  "iterationOrder [''b@x.com'', ''a@x.com''] firstFile
   \<and> distinct (keysOf secondFile)
   \<and> count_list (keysOf [entryOf ''First File'' ''b@x.com'']) ''b@x.com'' = 1
   \<and> count_list (keysOf [entryOf ''Second File'' ''c@x.com'']) ''b@x.com'' = 0
   \<and> count_list (keysOf [entryOf ''First File'' ''a@x.com'']) ''b@x.com'' = 0"
proof -
  have d: "distinct (keysOf secondFile)"
    by (simp add: keysOf_def entries)
  have kA: "''b@x.com'' \<in> set (keysOf firstFile)"
    by (simp add: keysOf_def entries)
  have kB: "''b@x.com'' \<in> set (keysOf secondFile)"
    by (simp add: keysOf_def entries)
  from compare_partition [OF iterationOrder_firstFile compare_run, of "''b@x.com''"]
    iterationOrder_firstFile d kA kB
  show ?thesis by simp
qed

text \<open>
  Claim C3, as stated, fails for \<open>onlyInA\<close>: it is filled by ranging over a Go map, whose
  iteration order is not the insertion order. With the first file \<open>a@x.com\<close>,
  \<open>b@x.com\<close>, a second file without either and the iteration order \<open>b@x.com\<close>,
  \<open>a@x.com\<close>, \<open>onlyInA\<close> is the reverse of the input order.
\<close>

theorem compare_order_counterexample:
  "iterationOrder [''b@x.com'', ''a@x.com''] firstFile
   \<and> fst (snd (snd (compareEmailEntries [''b@x.com'', ''a@x.com''] firstFile
                      [entryOf ''Second File'' ''c@x.com''])))
       = [entryOf ''First File'' ''b@x.com'', entryOf ''First File'' ''a@x.com'']
   \<and> inputOrderOnlyInA firstFile [entryOf ''Second File'' ''c@x.com'']
       = [entryOf ''First File'' ''a@x.com'', entryOf ''First File'' ''b@x.com'']
   \<and> fst (snd (snd (compareEmailEntries [''b@x.com'', ''a@x.com''] firstFile
                      [entryOf ''Second File'' ''c@x.com''])))
       \<noteq> inputOrderOnlyInA firstFile [entryOf ''Second File'' ''c@x.com'']"
  by (simp add: iterationOrder_def inputOrderOnlyInA_def compare_eval insert_commute)

text \<open>
  Claim C3, amended. For all lists \<open>A\<close> and \<open>B\<close>: \<open>matched\<close> and \<open>onlyInB\<close> follow the
  input order of \<open>B\<close> (\<open>matched\<close> holds, for each entry of \<open>B\<close> whose key \<open>A\<close> has, the
  last entry of \<open>A\<close> with that key; \<open>onlyInB\<close> is \<open>B\<close> without those entries), and
  \<open>onlyInA\<close> holds the last entry of \<open>A\<close> for each key of \<open>A\<close> absent from \<open>B\<close>, in the
  order in which the run iterates over the first file's map.
\<close>

theorem compare_order:
  assumes "iterationOrder order A"
    and "compareEmailEntries order A B = (matched, onlyInB, onlyInA, sm)"
  shows "keysOf matched = filter (\<lambda>k. k \<in> set (keysOf A)) (keysOf B)
       \<and> matched = map (\<lambda>e. lastWithKey A (NormalizedEmail e))
                        (filter (\<lambda>e. NormalizedEmail e \<in> set (keysOf A)) B)
       \<and> onlyInB = filter (\<lambda>e. NormalizedEmail e \<notin> set (keysOf A)) B
       \<and> onlyInA = map (lastWithKey A) (filter (\<lambda>k. k \<notin> set (keysOf B)) order)"
proof -
  note cl = compare_lists [OF assms(2)]
  from assms(1) have s: "set order = set (keysOf A)"
    by (simp add: iterationOrder_def keysOf_def)
  have "filter (\<lambda>k. k \<in> set (keysOf A) \<and> k \<notin> set (keysOf B)) order =
        filter (\<lambda>k. k \<notin> set (keysOf B)) order"
    by (rule filter_cong) (simp_all add: s [symmetric])
  with cl(1) cl(2) cl(3) compare_keys(1) [OF assms(2)] show ?thesis by simp
qed

theorem compare_order_witness:
  "iterationOrder [''b@x.com'', ''a@x.com''] firstFile
   \<and> keysOf [entryOf ''First File'' ''b@x.com''] =
       filter (\<lambda>k. k \<in> set (keysOf firstFile)) (keysOf secondFile)
   \<and> [entryOf ''First File'' ''b@x.com''] =
       map (\<lambda>e. lastWithKey firstFile (NormalizedEmail e))
         (filter (\<lambda>e. NormalizedEmail e \<in> set (keysOf firstFile)) secondFile)
   \<and> [entryOf ''Second File'' ''c@x.com''] =
       filter (\<lambda>e. NormalizedEmail e \<notin> set (keysOf firstFile)) secondFile
   \<and> [entryOf ''First File'' ''a@x.com''] =
       map (lastWithKey firstFile)
         (filter (\<lambda>k. k \<notin> set (keysOf secondFile)) [''b@x.com'', ''a@x.com''])"
  by (rule conjI [OF iterationOrder_firstFile
        compare_order [OF iterationOrder_firstFile compare_run]])

section \<open>The batch validator\<close>

lemma runWorkers_result:
  "length results = length emails \<Longrightarrow> list_all (\<lambda>job. snd job < length emails) sched \<Longrightarrow>
   runWorkers ul emails sched results =
     Some (map (\<lambda>i. if i \<in> snd ` set sched then ValidateEmailDetailed ul (emails ! i)
                     else results ! i) [0..<length emails])"
proof (induction sched arbitrary: results)
  case Nil
  then have "map (\<lambda>i. results ! i) [0..<length emails] = results"
    by (metis map_nth)
  then show ?case by simp
next
  case (Cons job sched)
  obtain w idx where job: "job = (w, idx)" by (cases job)
  from Cons.prems job have idx: "idx < length emails"
    and rest: "list_all (\<lambda>job. snd job < length emails) sched"
    by simp_all
  let ?results' = "results[idx := ValidateEmailDetailed ul (emails ! idx)]"
  have len: "length ?results' = length emails" using Cons.prems(1) by simp
  have "runWorkers ul emails (job # sched) results = runWorkers ul emails sched ?results'"
    using idx job by simp
  also have "\<dots> = Some (map (\<lambda>i. if i \<in> snd ` set sched then ValidateEmailDetailed ul (emails ! i)
                     else ?results' ! i) [0..<length emails])"
    by (rule Cons.IH [OF len rest])
  also have "map (\<lambda>i. if i \<in> snd ` set sched then ValidateEmailDetailed ul (emails ! i)
                     else ?results' ! i) [0..<length emails] =
     map (\<lambda>i. if i \<in> snd ` set (job # sched) then ValidateEmailDetailed ul (emails ! i)
                     else results ! i) [0..<length emails]"
    using Cons.prems(1) job by (auto simp: nth_list_update)
  finally show ?case .
qed

lemma batch_result:
  assumes "schedule emails sched"
  shows "ValidateEmailsBatch ul sched emails = Some (map (ValidateEmailDetailed ul) emails)"
proof -
  from assms have s: "snd ` set sched = {0..<length emails}"
    by (simp add: schedule_def)
  have "\<forall>job \<in> set sched. snd job \<in> snd ` set sched" by blast
  then have "list_all (\<lambda>job. snd job < length emails) sched"
    unfolding s by (simp add: list_all_iff)
  then have "ValidateEmailsBatch ul sched emails =
     Some (map (\<lambda>i. if i \<in> snd ` set sched then ValidateEmailDetailed ul (emails ! i)
                     else replicate (length emails) zeroResult ! i) [0..<length emails])"
    unfolding ValidateEmailsBatch_def by (intro runWorkers_result) simp_all
  also have "map (\<lambda>i. if i \<in> snd ` set sched then ValidateEmailDetailed ul (emails ! i)
                     else replicate (length emails) zeroResult ! i) [0..<length emails]
      = map (\<lambda>i. ValidateEmailDetailed ul (emails ! i)) [0..<length emails]"
    by (simp add: s)
  also have "\<dots> = map (ValidateEmailDetailed ul) (map ((!) emails) [0..<length emails])"
    by simp
  also have "\<dots> = map (ValidateEmailDetailed ul) emails"
    by (simp only: map_nth)
  finally show ?thesis .
qed

lemma vEmail_trimmed: "vEmail (ValidateEmailDetailed ul x) = TrimSpace x"
  by (simp add: ValidateEmailDetailed_def Let_def)

lemma schedule_two: "schedule [''a@x.com'', '' B@x.com ''] [(1, 1), (0, 0)]"
  by (simp add: schedule_def workerCount_def insert_commute)

text \<open>
  Claim C2, as stated, fails: \<open>ValidateEmailDetailed\<close> trims the address before it
  stores it, so the stored email of a slot is not the input string when that string
  has white space around it. The batch of the single address \<open>" a@x.com"\<close> stores
  \<open>"a@x.com"\<close>.
\<close>

theorem batch_order_preserved_counterexample:
  "schedule ['' a@x.com''] [(0, 0)]
   \<and> map_option (map vEmail) (ValidateEmailsBatch noUnicode [(0, 0)] ['' a@x.com''])
       = Some [''a@x.com'']
   \<and> ''a@x.com'' \<noteq> '' a@x.com''"
  by (simp add: schedule_def workerCount_def ValidateEmailsBatch_def ValidateEmailDetailed_def
      Let_def TrimSpace_def asciiSpace_def space2_def space3_def)

text \<open>
  Claim C2, amended. For every input sequence and every schedule of the workers,
  \<open>ValidateEmailsBatch\<close> returns a sequence of the same length in which slot \<open>i\<close> is
  the classification of input \<open>i\<close>; its stored email is input \<open>i\<close> with the surrounding
  white space trimmed, hence input \<open>i\<close> itself when that has none.
\<close>

theorem batch_order_preserved:
  assumes "schedule emails sched"
  shows "\<exists>results. ValidateEmailsBatch ul sched emails = Some results
     \<and> length results = length emails
     \<and> (\<forall>i < length emails.
           results ! i = ValidateEmailDetailed ul (emails ! i)
         \<and> vEmail (results ! i) = TrimSpace (emails ! i)
         \<and> (TrimSpace (emails ! i) = emails ! i \<longrightarrow> vEmail (results ! i) = emails ! i))"
  using batch_result [OF assms, of ul] by (simp add: vEmail_trimmed)

theorem batch_order_preserved_witness:
  "schedule [''a@x.com'', '' B@x.com ''] [(1, 1), (0, 0)]
   \<and> map_option (map vEmail) (ValidateEmailsBatch noUnicode [(1, 1), (0, 0)] [''a@x.com'', '' B@x.com ''])
       = Some [''a@x.com'', ''B@x.com'']
   \<and> TrimSpace ''a@x.com'' = ''a@x.com''
   \<and> TrimSpace '' B@x.com '' = ''B@x.com''"
proof -
  have t: "TrimSpace ''a@x.com'' = ''a@x.com''" "TrimSpace '' B@x.com '' = ''B@x.com''"
    by (simp_all add: string_eval)
  let ?emails = "[''a@x.com'', '' B@x.com '']"
  from batch_order_preserved [OF schedule_two, of noUnicode]
  obtain results where r: "ValidateEmailsBatch noUnicode [(1, 1), (0, 0)] ?emails = Some results"
    and l: "length results = length ?emails"
    and e: "\<forall>i < length ?emails. results ! i = ValidateEmailDetailed noUnicode (?emails ! i)
         \<and> vEmail (results ! i) = TrimSpace (?emails ! i)
         \<and> (TrimSpace (?emails ! i) = ?emails ! i \<longrightarrow> vEmail (results ! i) = ?emails ! i)"
    by blast
  have "map vEmail results = map TrimSpace ?emails"
  proof (rule nth_equalityI)
    show "length (map vEmail results) = length (map TrimSpace ?emails)" using l by simp
  next
    fix i assume "i < length (map vEmail results)"
    then have i: "i < length ?emails" using l by simp
    with e have v: "vEmail (results ! i) = TrimSpace (?emails ! i)" by blast
    from i l have ir: "i < length results" by (simp only:)
    show "map vEmail results ! i = map TrimSpace ?emails ! i"
      by (simp only: nth_map [OF ir] nth_map [OF i] v)
  qed
  with t have "map vEmail results = [''a@x.com'', ''B@x.com'']" by simp
  with r t schedule_two show ?thesis by simp
qed

section \<open>The extractor\<close>

lemma csvLoop_shape:
  "(fst (csvLoop reader emails) = None) = (snd (csvLoop reader emails) \<noteq> None)"
proof (induction reader emails rule: csvLoop.induct)
  case (1 reader emails)
  show ?case
  proof (cases "Read reader")
    case (Pair x reader')
    show ?thesis
    proof (cases x)
      case (Inl err)
      with Pair show ?thesis by (simp add: csvLoop.simps [of reader emails])
    next
      case (Inr fields)
      with Pair "1.IH" [OF Pair [symmetric] Inr] show ?thesis
        by (simp add: csvLoop.simps [of reader emails])
    qed
  qed
qed

lemma csvLoop_bad:
  assumes "0 < FieldsPerRecord reader"
    and "BadLine \<in> set (pending reader) \<or>
         (\<exists>fields. Fields fields \<in> set (pending reader) \<and> length fields \<noteq> FieldsPerRecord reader)"
  shows "csvLoop reader emails = (None, Some ParseError) \<or>
         csvLoop reader emails = (None, Some ErrFieldCount)"
  using assms
proof (induction ls \<equiv> "pending reader" arbitrary: reader emails)
  case Nil
  then show ?case by simp
next
  case (Cons l ls)
  from Cons.hyps(2) have p: "pending reader = l # ls" by simp
  show ?case
  proof (cases l)
    case BadLine
    with p show ?thesis by (simp add: csvLoop.simps [of reader emails] Read_def)
  next
    case (Fields fields)
    show ?thesis
    proof (cases "length fields = FieldsPerRecord reader")
      case False
      with Fields p Cons.prems(1) show ?thesis
        by (simp add: csvLoop.simps [of reader emails] Read_def)
    next
      case True
      let ?r' = "reader\<lparr> pending := ls \<rparr>"
      have step: "csvLoop reader emails = csvLoop ?r' (appendCandidate fields emails)"
        using True Fields p Cons.prems(1) by (simp add: csvLoop.simps [of reader emails] Read_def)
      have "BadLine \<in> set (pending ?r') \<or>
         (\<exists>fields. Fields fields \<in> set (pending ?r') \<and> length fields \<noteq> FieldsPerRecord ?r')"
        using Cons.prems(2) p Fields True by auto
      moreover have "0 < FieldsPerRecord ?r'" using Cons.prems(1) by simp
      moreover have "ls = pending ?r'" by simp
      ultimately show ?thesis
        unfolding step using Cons.hyps(1) by blast
    qed
  qed
qed

lemma xlsxLoop_shape:
  "(fst (xlsxLoop rows emails) = None) = (snd (xlsxLoop rows emails) \<noteq> None)"
  by (induction rows emails rule: xlsxLoop.induct) auto

lemma extractEmailsFromCSV_shape:
  "(fst (extractEmailsFromCSV fs p) = None) = (snd (extractEmailsFromCSV fs p) \<noteq> None)"
  by (auto simp: extractEmailsFromCSV_def csvLoop_shape split: option.splits prod.splits sum.splits)

lemma extractEmailsFromExcel_shape:
  "(fst (extractEmailsFromExcel fs p) = None) = (snd (extractEmailsFromExcel fs p) \<noteq> None)"
  using xlsxLoop_shape [of "[]" "[]"]
  by (auto simp: extractEmailsFromExcel_def xlsxLoop_shape
      split: option.splits list.splits sheet.splits xlsxRow.splits)

lemma extractEmails_shape:
  "(fst (extractEmails ul fs p) = None) = (snd (extractEmails ul fs p) \<noteq> None)"
  using extractEmailsFromCSV_shape [of fs p] extractEmailsFromExcel_shape [of fs p]
  by (auto simp: extractEmails_def Let_def split: prod.splits option.splits)

lemma extractEmails_missing:
  "fs p = None \<Longrightarrow> snd (extractEmails ul fs p) \<noteq> None"
  by (auto simp: extractEmails_def Let_def extractEmailsFromCSV_def extractEmailsFromExcel_def)

lemma extractEmails_csv:
  "ToLower ul (Ext p) = ''.csv'' \<Longrightarrow>
   extractEmails ul fs p =
     (case extractEmailsFromCSV fs p of
        (emails, Some err) \<Rightarrow> (None, Some err) | (emails, None) \<Rightarrow> (emails, None))"
  by (simp add: extractEmails_def Let_def)

lemma extractEmails_empty_csv:
  "fs p = Some f \<Longrightarrow> csvLines f = [] \<Longrightarrow> ToLower ul (Ext p) = ''.csv'' \<Longrightarrow>
   extractEmails ul fs p = (None, Some EOF)"
  by (simp add: extractEmails_csv extractEmailsFromCSV_def Read_def NewReader_def)

lemma extractEmails_not_workbook:
  "fs p = Some f \<Longrightarrow> workbook f = None \<Longrightarrow>
   ToLower ul (Ext p) = ''.xlsx'' \<or> ToLower ul (Ext p) = ''.xls'' \<Longrightarrow>
   extractEmails ul fs p = (None, Some NotAWorkbook)"
  by (auto simp: extractEmails_def Let_def extractEmailsFromExcel_def)

lemma extractEmails_malformed:
  assumes "fs p = Some f" and "ToLower ul (Ext p) = ''.csv''"
    and "csvLines f = Fields header # rest" and "header \<noteq> []"
    and "BadLine \<in> set rest \<or> (\<exists>fields. Fields fields \<in> set rest \<and> length fields \<noteq> length header)"
  shows "extractEmails ul fs p = (None, Some ParseError) \<or>
         extractEmails ul fs p = (None, Some ErrFieldCount)"
proof -
  let ?r = "\<lparr> FieldsPerRecord = length header, pending = rest \<rparr>"
  have "extractEmailsFromCSV fs p = csvLoop ?r []"
    using assms(1,3) by (simp add: extractEmailsFromCSV_def Read_def NewReader_def)
  moreover have "csvLoop ?r [] = (None, Some ParseError) \<or> csvLoop ?r [] = (None, Some ErrFieldCount)"
    by (rule csvLoop_bad) (use assms(4,5) in simp_all)
  ultimately show ?thesis
    by (auto simp: extractEmails_csv [OF assms(2)])
qed

lemmas file_eval = demoFiles_def Ext_def string_eval

lemma ext_eval:
  "ToLower noUnicode (Ext ''empty.csv'') = ''.csv''"
  "ToLower noUnicode (Ext ''ragged.csv'') = ''.csv''"
  "ToLower noUnicode (Ext ''good.CSV'') = ''.csv''"
  "ToLower noUnicode (Ext ''empty.xlsx'') = ''.xlsx''"
  "ToLower noUnicode (Ext ''absent.csv'') = ''.csv''"
  by (simp_all add: file_eval)

lemma xlsxLoop_columns:
  "xlsxLoop (map Columns rows) emails =
     (Some (foldl (\<lambda>emails row. appendCandidate row emails) emails rows), None)"
  by (induction rows arbitrary: emails) simp_all

lemma xlsxLoop_bad:
  "BadRow \<in> set rows \<Longrightarrow> xlsxLoop rows emails = (None, Some RowError)"
  by (induction rows emails rule: xlsxLoop.induct) auto

lemma extractEmails_excel:
  "ToLower ul (Ext p) = ''.xlsx'' \<or> ToLower ul (Ext p) = ''.xls'' \<Longrightarrow>
   extractEmails ul fs p =
     (case extractEmailsFromExcel fs p of
        (emails, Some err) \<Rightarrow> (None, Some err) | (emails, None) \<Rightarrow> (emails, None))"
  by (auto simp: extractEmails_def Let_def)

lemma extractEmails_columns:
  assumes "fs p = Some f"
    and "ToLower ul (Ext p) = ''.xlsx'' \<or> ToLower ul (Ext p) = ''.xls''"
    and "workbook f = Some (Sheet (map Columns rows) # others)"
  shows "extractEmails ul fs p =
     (Some (foldl (\<lambda>emails row. appendCandidate row emails) [] (tl rows)), None)"
proof (cases rows)
  case Nil
  with assms(1,3) have "extractEmailsFromExcel fs p = (Some [], None)"
    by (simp add: extractEmailsFromExcel_def)
  with Nil show ?thesis by (simp add: extractEmails_excel [OF assms(2)])
next
  case (Cons header rest)
  with assms(1,3) have "extractEmailsFromExcel fs p = xlsxLoop (map Columns rest) []"
    by (simp add: extractEmailsFromExcel_def)
  with Cons show ?thesis
    by (simp add: extractEmails_excel [OF assms(2)] xlsxLoop_columns)
qed

lemma extractEmails_bad_row:
  assumes "fs p = Some f"
    and "ToLower ul (Ext p) = ''.xlsx'' \<or> ToLower ul (Ext p) = ''.xls''"
    and "workbook f = Some (Sheet rows # others)" and "BadRow \<in> set rows"
  shows "extractEmails ul fs p = (None, Some RowError)"
proof (cases rows)
  case Nil
  with assms(4) show ?thesis by simp
next
  case (Cons r rest)
  show ?thesis
  proof (cases r)
    case BadRow
    with Cons assms(1,3) have "extractEmailsFromExcel fs p = (None, Some RowError)"
      by (simp add: extractEmailsFromExcel_def)
    then show ?thesis by (simp add: extractEmails_excel [OF assms(2)])
  next
    case (Columns header)
    with Cons assms(4) have "BadRow \<in> set rest" by simp
    then have "xlsxLoop rest [] = (None, Some RowError)" by (rule xlsxLoop_bad)
    with Columns Cons assms(1,3) have "extractEmailsFromExcel fs p = (None, Some RowError)"
      by (simp add: extractEmailsFromExcel_def)
    then show ?thesis by (simp add: extractEmails_excel [OF assms(2)])
  qed
qed

lemma extractEmails_header_only:
  "fs p = Some f \<Longrightarrow> ToLower ul (Ext p) = ''.csv'' \<Longrightarrow> csvLines f = [Fields header] \<Longrightarrow>
   extractEmails ul fs p = (Some [], None)"
  by (simp add: extractEmails_csv extractEmailsFromCSV_def Read_def NewReader_def
      csvLoop.simps [of "\<lparr> FieldsPerRecord = length header, pending = [] \<rparr>" "[]"])

lemma sheet_ext_eval:
  "ToLower noUnicode (Ext ''ragged.xlsx'') = ''.xlsx''"
  "ToLower noUnicode (Ext ''blank.xlsx'') = ''.xlsx''"
  "ToLower noUnicode (Ext ''header.csv'') = ''.csv''"
  by (simp_all add: Ext_def string_eval)

text \<open>
  Claim C8, as stated, fails for spreadsheets. \<open>extractEmailsFromExcel\<close> takes the rows
  as \<open>excelize\<close> hands them over and never compares their lengths: a workbook whose
  third row has one cell where the header has two is extracted in full, without an
  error. And a workbook whose first sheet has no rows gives the empty sequence without
  an error, the header row being skipped only when there is one.
\<close>

theorem extraction_failures_counterexample:
  "workbook (the (demoSheets ''ragged.xlsx'')) =
       Some [Sheet [Columns [''email'', ''name''], Columns [''a@x.com'', ''A''],
                    Columns [''b@x.com'']]]
   \<and> length [''b@x.com''] \<noteq> length [''email'', ''name'']
   \<and> extractEmails noUnicode demoSheets ''ragged.xlsx'' = (Some [''a@x.com'', ''b@x.com''], None)
   \<and> workbook (the (demoSheets ''blank.xlsx'')) = Some [Sheet []]
   \<and> extractEmails noUnicode demoSheets ''blank.xlsx'' = (Some [], None)"
  by (simp add: extractEmails_excel sheet_ext_eval extractEmailsFromExcel_def demoSheets_def
      appendCandidate_def Contains_def)

text \<open>
  Claim C8, amended. \<open>extractEmails\<close> never returns a list together with an error. A
  path that cannot be opened gives an error; so does an empty CSV file (\<open>EOF\<close> from the
  read of the header) and a spreadsheet path whose bytes are no workbook, as those of
  an empty file are. In a CSV file a line that the lexer rejects, or one whose number
  of fields differs from the header's, makes the whole extraction fail, whatever was
  collected before; a CSV file with a header and no other line gives the empty
  sequence without an error. In a spreadsheet a row that cannot be read makes the
  whole extraction fail; the lengths of the rows are not compared, so every workbook
  whose rows can be read is extracted, to the empty sequence when its first sheet has
  no row or only the header.
\<close>

theorem extraction_failures:
  "(snd (extractEmails ul fs p) \<noteq> None \<longrightarrow> fst (extractEmails ul fs p) = None)
   \<and> (snd (extractEmailsFromCSV fs p) \<noteq> None \<longrightarrow> fst (extractEmailsFromCSV fs p) = None)
   \<and> (fs p = None \<longrightarrow>
        fst (extractEmails ul fs p) = None \<and> snd (extractEmails ul fs p) \<noteq> None)
   \<and> (fs p = Some f \<and> csvLines f = [] \<and> ToLower ul (Ext p) = ''.csv'' \<longrightarrow>
        extractEmails ul fs p = (None, Some EOF))
   \<and> (fs p = Some f \<and> workbook f = None \<and>
        (ToLower ul (Ext p) = ''.xlsx'' \<or> ToLower ul (Ext p) = ''.xls'') \<longrightarrow>
        extractEmails ul fs p = (None, Some NotAWorkbook))
   \<and> (fs p = Some f \<and> ToLower ul (Ext p) = ''.csv'' \<and>
        csvLines f = Fields header # rest \<and> header \<noteq> [] \<and>
        (BadLine \<in> set rest \<or>
         (\<exists>fields. Fields fields \<in> set rest \<and> length fields \<noteq> length header)) \<longrightarrow>
        extractEmails ul fs p = (None, Some ParseError) \<or>
        extractEmails ul fs p = (None, Some ErrFieldCount))
   \<and> (fs p = Some f \<and> ToLower ul (Ext p) = ''.csv'' \<and> csvLines f = [Fields header] \<longrightarrow>
        extractEmails ul fs p = (Some [], None))
   \<and> (fs p = Some f \<and> (ToLower ul (Ext p) = ''.xlsx'' \<or> ToLower ul (Ext p) = ''.xls'') \<and>
        workbook f = Some (Sheet rows # others) \<and> BadRow \<in> set rows \<longrightarrow>
        extractEmails ul fs p = (None, Some RowError))
   \<and> (fs p = Some f \<and> (ToLower ul (Ext p) = ''.xlsx'' \<or> ToLower ul (Ext p) = ''.xls'') \<and>
        workbook f = Some (Sheet (map Columns cols) # others) \<longrightarrow>
        extractEmails ul fs p =
          (Some (foldl (\<lambda>emails row. appendCandidate row emails) [] (tl cols)), None))"
proof -
  have a: "snd (extractEmails ul fs p) \<noteq> None \<longrightarrow> fst (extractEmails ul fs p) = None"
    by (simp add: extractEmails_shape)
  have b: "snd (extractEmailsFromCSV fs p) \<noteq> None \<longrightarrow> fst (extractEmailsFromCSV fs p) = None"
    by (simp add: extractEmailsFromCSV_shape)
  have c: "fs p = None \<longrightarrow>
        fst (extractEmails ul fs p) = None \<and> snd (extractEmails ul fs p) \<noteq> None"
    using extractEmails_missing [of fs p ul] by (simp add: extractEmails_shape)
  have d: "fs p = Some f \<and> csvLines f = [] \<and> ToLower ul (Ext p) = ''.csv'' \<longrightarrow>
        extractEmails ul fs p = (None, Some EOF)"
    using extractEmails_empty_csv [of fs p f ul] by blast
  have e: "fs p = Some f \<and> workbook f = None \<and>
        (ToLower ul (Ext p) = ''.xlsx'' \<or> ToLower ul (Ext p) = ''.xls'') \<longrightarrow>
        extractEmails ul fs p = (None, Some NotAWorkbook)"
    using extractEmails_not_workbook [of fs p f ul] by blast
  have g: "fs p = Some f \<and> ToLower ul (Ext p) = ''.csv'' \<and>
        csvLines f = Fields header # rest \<and> header \<noteq> [] \<and>
        (BadLine \<in> set rest \<or>
         (\<exists>fields. Fields fields \<in> set rest \<and> length fields \<noteq> length header)) \<longrightarrow>
        extractEmails ul fs p = (None, Some ParseError) \<or>
        extractEmails ul fs p = (None, Some ErrFieldCount)"
    using extractEmails_malformed [of fs p f ul header rest] by blast
  have h: "fs p = Some f \<and> ToLower ul (Ext p) = ''.csv'' \<and> csvLines f = [Fields header] \<longrightarrow>
        extractEmails ul fs p = (Some [], None)"
    using extractEmails_header_only [of fs p f ul header] by blast
  have i: "fs p = Some f \<and> (ToLower ul (Ext p) = ''.xlsx'' \<or> ToLower ul (Ext p) = ''.xls'') \<and>
        workbook f = Some (Sheet rows # others) \<and> BadRow \<in> set rows \<longrightarrow>
        extractEmails ul fs p = (None, Some RowError)"
    using extractEmails_bad_row [of fs p f ul rows others] by blast
  have j: "fs p = Some f \<and> (ToLower ul (Ext p) = ''.xlsx'' \<or> ToLower ul (Ext p) = ''.xls'') \<and>
        workbook f = Some (Sheet (map Columns cols) # others) \<longrightarrow>
        extractEmails ul fs p =
          (Some (foldl (\<lambda>emails row. appendCandidate row emails) [] (tl cols)), None)"
    using extractEmails_columns [of fs p f ul cols others] by blast
  from a b c d e g h i j show ?thesis by blast
qed

theorem extraction_failures_witness:
  "demoFiles ''absent.csv'' = None
   \<and> extractEmails noUnicode demoFiles ''absent.csv'' = (None, Some PathError)
   \<and> csvLines (the (demoFiles ''empty.csv'')) = []
   \<and> extractEmails noUnicode demoFiles ''empty.csv'' = (None, Some EOF)
   \<and> workbook (the (demoFiles ''empty.xlsx'')) = None
   \<and> extractEmails noUnicode demoFiles ''empty.xlsx'' = (None, Some NotAWorkbook)
   \<and> Fields [''b@x.com''] \<in> set (tl (csvLines (the (demoFiles ''ragged.csv''))))
   \<and> extractEmails noUnicode demoFiles ''ragged.csv'' = (None, Some ErrFieldCount)
   \<and> extractEmails noUnicode demoFiles ''good.CSV'' = (Some [''a@x.com'', ''b@x.com''], None)
   \<and> csvLines (the (demoSheets ''header.csv'')) = [Fields [''email'', ''name'']]
   \<and> extractEmails noUnicode demoSheets ''header.csv'' = (Some [], None)
   \<and> BadRow \<in> set [Columns [''email''], BadRow]
   \<and> extractEmails noUnicode
         [''unreadable.xls'' \<mapsto> \<lparr> csvLines = [], workbook = Some [Sheet [Columns [''email''], BadRow]] \<rparr>]
         ''unreadable.xls'' = (None, Some RowError)
   \<and> workbook (the (demoSheets ''ragged.xlsx'')) =
       Some [Sheet (map Columns [[''email'', ''name''], [''a@x.com'', ''A''], [''b@x.com'']])]
   \<and> extractEmails noUnicode demoSheets ''ragged.xlsx'' = (Some [''a@x.com'', ''b@x.com''], None)"
proof -
  have absent: "demoFiles ''absent.csv'' = None" by (simp add: demoFiles_def)
  have r1: "extractEmails noUnicode demoFiles ''absent.csv'' = (None, Some PathError)"
    by (simp add: extractEmails_csv ext_eval extractEmailsFromCSV_def absent)
  have empty: "demoFiles ''empty.csv'' = Some \<lparr> csvLines = [], workbook = None \<rparr>"
    by (simp add: demoFiles_def)
  have emptyx: "demoFiles ''empty.xlsx'' = Some \<lparr> csvLines = [], workbook = None \<rparr>"
    by (simp add: demoFiles_def)
  have ragged: "demoFiles ''ragged.csv'' = Some
        \<lparr> csvLines = [Fields [''email'', ''name''], Fields [''a@x.com'', ''A''],
                       Fields [''b@x.com'']],
          workbook = None \<rparr>"
    by (simp add: demoFiles_def)
  have good: "demoFiles ''good.CSV'' = Some
        \<lparr> csvLines = [Fields [''email'', ''name''], Fields [''a@x.com'', ''A''],
                       Fields [''not an address'', ''B''], Fields [''b@x.com'', ''C'']],
          workbook = None \<rparr>"
    by (simp add: demoFiles_def)
  note th = extraction_failures [of noUnicode demoFiles]
  have r2: "extractEmails noUnicode demoFiles ''empty.csv'' = (None, Some EOF)"
    using th [of "''empty.csv''" "\<lparr> csvLines = [], workbook = None \<rparr>"] empty ext_eval
    by simp
  have r3: "extractEmails noUnicode demoFiles ''empty.xlsx'' = (None, Some NotAWorkbook)"
    using th [of "''empty.xlsx''" "\<lparr> csvLines = [], workbook = None \<rparr>"] emptyx ext_eval
    by simp
  have ex: "\<exists>fields. Fields fields \<in> set [Fields [''a@x.com'', ''A''], Fields [''b@x.com'']]
      \<and> length fields \<noteq> length [''email'', ''name'']"
    by (rule exI [of _ "[''b@x.com'']"]) simp
  have hd: "[''email'', ''name''] \<noteq> []" by simp
  have cl: "csvLines \<lparr> csvLines = [Fields [''email'', ''name''], Fields [''a@x.com'', ''A''],
                       Fields [''b@x.com'']], workbook = None \<rparr> =
        Fields [''email'', ''name''] # [Fields [''a@x.com'', ''A''], Fields [''b@x.com'']]"
    by simp
  have r4: "extractEmails noUnicode demoFiles ''ragged.csv'' = (None, Some ParseError) \<or>
            extractEmails noUnicode demoFiles ''ragged.csv'' = (None, Some ErrFieldCount)"
    using th [of "''ragged.csv''" "\<lparr> csvLines = [Fields [''email'', ''name''], Fields [''a@x.com'', ''A''],
                       Fields [''b@x.com'']], workbook = None \<rparr>" "[''email'', ''name'']"
                       "[Fields [''a@x.com'', ''A''], Fields [''b@x.com'']]"] ragged ext_eval(2) ex hd cl
    by blast
  have r4': "extractEmails noUnicode demoFiles ''ragged.csv'' = (None, Some ErrFieldCount)"
    by (simp add: extractEmails_csv ext_eval extractEmailsFromCSV_def ragged Read_def NewReader_def
        csvLoop.simps appendCandidate_def Contains_def)
  have r5: "extractEmails noUnicode demoFiles ''good.CSV'' = (Some [''a@x.com'', ''b@x.com''], None)"
    by (simp add: extractEmails_csv ext_eval extractEmailsFromCSV_def good Read_def NewReader_def
        csvLoop.simps appendCandidate_def Contains_def)
  have header: "demoSheets ''header.csv'' =
      Some \<lparr> csvLines = [Fields [''email'', ''name'']], workbook = None \<rparr>"
    by (simp add: demoSheets_def)
  have r6: "extractEmails noUnicode demoSheets ''header.csv'' = (Some [], None)"
    using extraction_failures [where ul = noUnicode and fs = demoSheets and p = "''header.csv''"
        and f = "\<lparr> csvLines = [Fields [''email'', ''name'']], workbook = None \<rparr>"
        and header = "[''email'', ''name'']"]
      header sheet_ext_eval(3)
    by simp
  let ?fs = "[''unreadable.xls'' \<mapsto>
      \<lparr> csvLines = [], workbook = Some [Sheet [Columns [''email''], BadRow]] \<rparr>]"
  have xls: "ToLower noUnicode (Ext ''unreadable.xls'') = ''.xls''"
    by (simp add: Ext_def string_eval)
  have bad: "BadRow \<in> set [Columns [''email''], BadRow]" by simp
  have r7: "extractEmails noUnicode ?fs ''unreadable.xls'' = (None, Some RowError)"
    using extraction_failures [where ul = noUnicode and fs = ?fs and p = "''unreadable.xls''"
        and f = "\<lparr> csvLines = [], workbook = Some [Sheet [Columns [''email''], BadRow]] \<rparr>"
        and rows = "[Columns [''email''], BadRow]" and others = "[]"] xls bad
    by simp
  have raggedx: "demoSheets ''ragged.xlsx'' =
      Some \<lparr> csvLines = [BadLine],
             workbook = Some [Sheet (map Columns
               [[''email'', ''name''], [''a@x.com'', ''A''], [''b@x.com'']])] \<rparr>"
    by (simp add: demoSheets_def)
  have r8: "extractEmails noUnicode demoSheets ''ragged.xlsx'' =
      (Some (foldl (\<lambda>emails row. appendCandidate row emails) []
               (tl [[''email'', ''name''], [''a@x.com'', ''A''], [''b@x.com'']])), None)"
    using extraction_failures [where ul = noUnicode and fs = demoSheets and p = "''ragged.xlsx''"
        and f = "\<lparr> csvLines = [BadLine], workbook = Some [Sheet (map Columns
               [[''email'', ''name''], [''a@x.com'', ''A''], [''b@x.com'']])] \<rparr>"
        and others = "[]"
        and cols = "[[''email'', ''name''], [''a@x.com'', ''A''], [''b@x.com'']]"]
      raggedx sheet_ext_eval(1)
    by simp
  then have r8': "extractEmails noUnicode demoSheets ''ragged.xlsx'' =
      (Some [''a@x.com'', ''b@x.com''], None)"
    by (simp add: appendCandidate_def Contains_def)
  from absent r1 r2 r3 r4 r4' r5 empty emptyx ragged header r6 bad r7 raggedx r8'
  show ?thesis by simp
qed

section \<open>The report writers\<close>

lemma writeHeaders_other_rows:
  "row \<noteq> 1 \<Longrightarrow> cells (writeHeaders hs i f) (sh, col, row) = cells f (sh, col, row)"
  by (induction hs i f rule: writeHeaders.induct) (auto simp: SetCellValue_def)

lemma writeEntries_rows_above:
  "r < row \<Longrightarrow>
   cells (snd (writeEntries sourceTag statusTag es (row, f))) (sh, col, r) = cells f (sh, col, r)"
  by (induction es arbitrary: row f) (auto simp: SetCellValue_def Let_def)

lemma writeEntries_column_F:
  "cells (snd (writeEntries sourceTag statusTag es (row, f))) (sh, ''F'', r) = cells f (sh, ''F'', r)"
  by (induction es arbitrary: row f) (auto simp: SetCellValue_def Let_def)

lemma writeEntries_column_F_state:
  "cells (snd (writeEntries sourceTag statusTag es st)) (sh, ''F'', r) = cells (snd st) (sh, ''F'', r)"
  by (cases st) (simp add: writeEntries_column_F)

lemma writeEntries_row_counter:
  "fst (writeEntries sourceTag statusTag es (row, f)) = row + length es"
  by (induction es arbitrary: row f) (auto simp: Let_def)

lemma writeSummary_other_sheet:
  "sh \<noteq> summarySheet \<Longrightarrow> cells (writeSummary xs i f) (sh, col, r) = cells f (sh, col, r)"
  by (induction xs i f rule: writeSummary.induct) (auto simp: SetCellValue_def)

lemma headers_F: "cells (writeHeaders headers 0 f) (resultsSheet, ''F'', 1) = Some (Text ''Reason'')"
  by (simp add: headers_def SetCellValue_def resultsSheet_def char_of_def bit_Suc_0_iff bit_0)

lemma sheets_differ: "resultsSheet \<noteq> summarySheet" "resultsSheet \<noteq> ''Sheet1''"
  by (simp_all add: resultsSheet_def summarySheet_def)

lemma excel_cells:
  assumes "generateEnhancedExcelOutput None m mf ms sm = Inr f"
  shows "cells f (resultsSheet, col, r) =
     cells (snd (writeEntries ''First File Only'' ''Missing in Second File'' ms
        (writeEntries ''Second File Only'' ''Missing in First File'' mf
          (writeEntries ''Both'' ''Matching'' m
             (2, writeHeaders headers 0 (NewSheet NewFile resultsSheet)))))) (resultsSheet, col, r)"
  using assms sheets_differ
  by (auto simp: generateEnhancedExcelOutput_def Let_def DeleteSheet_def SetCellValue_def
      NewSheet_def writeSummary_other_sheet split: prod.splits)

text \<open>
  Claim C7 fails for the spreadsheet writer. Both writers put the header \<open>Reason\<close> in
  the sixth place, and the CSV writer gives every entry row six fields with the reason
  as the sixth. The spreadsheet writer stores the reason of an entry in column \<open>I\<close>, the
  ninth, and never writes column \<open>F\<close> below the header. The first matched entry is
  row 2; an entry with a reason is, for example, the one of the address \<open>a@b@c\<close>.
\<close>

theorem reason_column:
  "(\<exists>rest. generateEnhancedCSVOutput None (e # m) mf ms sm =
       Inr (headers
            # [Email e, NormalizedEmail e, ''Both'', ''Matching'', fmtBool (IsValid e), Reason e]
            # rest))
   \<and> headers ! 5 = ''Reason''
   \<and> (\<exists>f. generateEnhancedExcelOutput None (e # m) mf ms sm = Inr f
        \<and> cells f (resultsSheet, ''F'', 1) = Some (Text ''Reason'')
        \<and> cells f (resultsSheet, ''E'', 2) = Some (Text (fmtBool (IsValid e)))
        \<and> cells f (resultsSheet, ''I'', 2) = Some (Text (Reason e))
        \<and> cells f (resultsSheet, ''I'', 1) = None
        \<and> (\<forall>row. cells f (resultsSheet, ''F'', row + 2) = None))
   \<and> Reason (entryOf ''First File'' ''a@b@c'') = ''Email must contain exactly one @ symbol''"
proof -
  have ex: "Reason (entryOf ''First File'' ''a@b@c'') = ''Email must contain exactly one @ symbol''"
    by (simp add: entry_eval)
  have csv: "\<exists>rest. generateEnhancedCSVOutput None (e # m) mf ms sm =
       Inr (headers
            # [Email e, NormalizedEmail e, ''Both'', ''Matching'', fmtBool (IsValid e), Reason e]
            # rest)"
    by (simp add: generateEnhancedCSVOutput_def)
  have h5: "headers ! 5 = ''Reason''"
    by (simp add: headers_def)
  have "\<exists>f. generateEnhancedExcelOutput None (e # m) mf ms sm = Inr f"
    unfolding generateEnhancedExcelOutput_def Let_def
    by (simp split: prod.split)
  then obtain f where f: "generateEnhancedExcelOutput None (e # m) mf ms sm = Inr f" ..
  note c = excel_cells [OF f]
  let ?f1 = "writeHeaders headers 0 (NewSheet NewFile resultsSheet)"
  obtain row2 f2 where w1: "writeEntries ''Both'' ''Matching'' (e # m) (2, ?f1) = (row2, f2)"
    by (cases "writeEntries ''Both'' ''Matching'' (e # m) (2, ?f1)")
  obtain row3 f3 where w2: "writeEntries ''Second File Only'' ''Missing in First File'' mf (row2, f2) = (row3, f3)"
    by (cases "writeEntries ''Second File Only'' ''Missing in First File'' mf (row2, f2)")
  have r2: "row2 = 3 + length m"
    using writeEntries_row_counter [of "''Both''" "''Matching''" "e # m" 2 ?f1] w1 by simp
  have r3: "row3 = row2 + length mf"
    using writeEntries_row_counter [of "''Second File Only''" "''Missing in First File''" mf row2 f2] w2
    by simp
  have low: "r < 3 \<Longrightarrow> cells f (resultsSheet, col, r) = cells f2 (resultsSheet, col, r)" for r col
  proof -
    assume r: "r < 3"
    have "cells f (resultsSheet, col, r) =
       cells (snd (writeEntries ''First File Only'' ''Missing in Second File'' ms (row3, f3)))
         (resultsSheet, col, r)"
      by (simp only: c w1 w2)
    also have "\<dots> = cells f3 (resultsSheet, col, r)"
      using r r2 r3 by (intro writeEntries_rows_above) simp
    also have "\<dots> = cells (snd (writeEntries ''Second File Only'' ''Missing in First File'' mf (row2, f2)))
         (resultsSheet, col, r)"
      by (simp only: w2 snd_conv)
    also have "\<dots> = cells f2 (resultsSheet, col, r)"
      using r r2 by (intro writeEntries_rows_above) simp
    finally show ?thesis .
  qed
  have first: "r < 3 \<Longrightarrow> cells f2 (resultsSheet, col, r) =
      cells (SetCellValue (SetCellValue (SetCellValue (SetCellValue (SetCellValue (SetCellValue ?f1
          resultsSheet ''A'' 2 (Text (Email e)))
          resultsSheet ''B'' 2 (Text (NormalizedEmail e)))
          resultsSheet ''C'' 2 (Text ''Both''))
          resultsSheet ''D'' 2 (Text ''Matching''))
          resultsSheet ''E'' 2 (Text (fmtBool (IsValid e))))
          resultsSheet ''I'' 2 (Text (Reason e))) (resultsSheet, col, r)" for r col
  proof -
    assume r: "r < 3"
    let ?g = "SetCellValue (SetCellValue (SetCellValue (SetCellValue (SetCellValue (SetCellValue ?f1
          resultsSheet ''A'' 2 (Text (Email e)))
          resultsSheet ''B'' 2 (Text (NormalizedEmail e)))
          resultsSheet ''C'' 2 (Text ''Both''))
          resultsSheet ''D'' 2 (Text ''Matching''))
          resultsSheet ''E'' 2 (Text (fmtBool (IsValid e))))
          resultsSheet ''I'' 2 (Text (Reason e))"
    have "f2 = snd (writeEntries ''Both'' ''Matching'' m (3, ?g))"
      using w1 by (simp add: Let_def)
    then show ?thesis using r by (simp add: writeEntries_rows_above)
  qed
  have F1: "cells f (resultsSheet, ''F'', 1) = Some (Text ''Reason'')"
    using headers_F [of "NewSheet NewFile resultsSheet"]
    by (simp add: low first SetCellValue_def)
  have E2: "cells f (resultsSheet, ''E'', 2) = Some (Text (fmtBool (IsValid e)))"
    by (simp add: low first SetCellValue_def)
  have I2: "cells f (resultsSheet, ''I'', 2) = Some (Text (Reason e))"
    by (simp add: low first SetCellValue_def)
  have I1: "cells f (resultsSheet, ''I'', 1) = None"
    by (simp add: low first SetCellValue_def headers_def NewSheet_def NewFile_def
        char_of_def bit_Suc_0_iff bit_0)
  have F: "cells f (resultsSheet, ''F'', row + 2) = None" for row
    by (simp add: c writeEntries_column_F_state SetCellValue_def writeHeaders_other_rows
        NewSheet_def NewFile_def)
  from csv h5 f F1 E2 I2 I1 F ex show ?thesis by blast
qed

section \<open>The cache\<close>

text \<open>
  Claim C9. After \<open>Set\<close> at time \<open>t\<close> with a time to live \<open>ttl\<close>, a \<open>Get\<close> of the same key
  at any time later than \<open>t + ttl\<close> returns no value and \<open>found = false\<close>, whether the
  deferred deletion that an earlier \<open>Get\<close> started has run or not; the same holds in
  any state of the cache for any item whose expiration has passed.
\<close>

theorem expired_entry_absent:
  assumes "t + ttl < now"
  shows "Cache_Get now (Cache_Set t c k v ttl) k = (None, False, Some k)
       \<and> fst (Cache_Get now (runDeferred (Cache_Set t c k v ttl) deferred) k) = None
       \<and> fst (snd (Cache_Get now (runDeferred (Cache_Set t c k v ttl) deferred) k)) = False
       \<and> (c' k = Some item \<and> expiration item < now \<longrightarrow>
            fst (Cache_Get now c' k) = None \<and> fst (snd (Cache_Get now c' k)) = False)"
  using assms
  by (auto simp: Cache_Get_def Cache_Set_def runDeferred_def Cache_Delete_def
      split: option.splits)

theorem expired_entry_absent_witness:
  "(0::int) + 1000000 < 2000000
   \<and> Cache_Get 2000000 (Cache_Set 0 NewCache ''k'' True 1000000) ''k'' = (None, False, Some ''k'')
   \<and> fst (snd (Cache_Get 2000000
        (runDeferred (Cache_Set 0 NewCache ''k'' True 1000000) (Some ''k'')) ''k'')) = False
   \<and> Cache_Get 500000 (Cache_Set 0 NewCache ''k'' True 1000000) ''k'' = (Some True, True, None)"
proof -
  have h: "(0::int) + 1000000 < 2000000" by simp
  have live: "Cache_Get 500000 (Cache_Set 0 NewCache ''k'' True 1000000) ''k'' = (Some True, True, None)"
    by (simp add: Cache_Get_def Cache_Set_def)
  from expired_entry_absent [OF h, of NewCache "''k''" True "Some ''k''"] h live
  show ?thesis by blast
qed

section \<open>The disposable flag\<close>

text \<open>
  Claim C10. Every result of \<open>ValidateEmailDetailed\<close> and of \<open>ValidateEmailsBatch\<close>, and
  every entry \<open>validateEmailList\<close> builds from them, has \<open>IsDisposable = false\<close>; and for
  all input lists, also of entries whose flag is set, \<open>compareEmailEntries\<close> returns a
  summary with \<open>DisposableEmailsCount = 0\<close>. The table of disposable domains is not an
  input of any of these functions: the only code that reads it is never called.
\<close>

theorem never_disposable:
  "vIsDisposable (ValidateEmailDetailed ul x) = False
   \<and> (schedule emails sched \<longrightarrow>
        (\<exists>results. ValidateEmailsBatch ul sched emails = Some results
           \<and> list_all (\<lambda>r. vIsDisposable r = False) results))
   \<and> (schedule emails sched \<longrightarrow>
        (\<exists>entries. validateEmailList ul sched emails source = Some entries
           \<and> list_all (\<lambda>e. IsDisposable e = False) entries))
   \<and> DisposableEmailsCount (snd (snd (snd (compareEmailEntries order A B)))) = 0"
proof -
  have a: "vIsDisposable (ValidateEmailDetailed ul y) = False" for y
    by (simp add: ValidateEmailDetailed_def Let_def)
  have b: "schedule emails sched \<longrightarrow>
        (\<exists>results. ValidateEmailsBatch ul sched emails = Some results
           \<and> list_all (\<lambda>r. vIsDisposable r = False) results)"
    by (auto simp: batch_result a list_all_iff)
  have c: "schedule emails sched \<longrightarrow>
        (\<exists>entries. validateEmailList ul sched emails source = Some entries
           \<and> list_all (\<lambda>e. IsDisposable e = False) entries)"
    by (auto simp: validateEmailList_def batch_result a list_all_iff toEntry_def)
  have d: "DisposableEmailsCount (snd (snd (snd (compareEmailEntries order A B)))) = 0"
    by (simp add: compare_eq)
  from a b c d show ?thesis by blast
qed

theorem never_disposable_witness:
  "schedule [''a@x.com'', '' B@x.com ''] [(1, 1), (0, 0)]
   \<and> vIsDisposable (ValidateEmailDetailed noUnicode ''x@mailinator.com'') = False
   \<and> (\<exists>results. ValidateEmailsBatch noUnicode [(1, 1), (0, 0)] [''a@x.com'', '' B@x.com ''] = Some results
           \<and> list_all (\<lambda>r. vIsDisposable r = False) results)
   \<and> (\<exists>entries. validateEmailList noUnicode [(1, 1), (0, 0)] [''a@x.com'', '' B@x.com ''] ''First File'' = Some entries
           \<and> list_all (\<lambda>e. IsDisposable e = False) entries)
   \<and> DisposableEmailsCount (snd (snd (snd (compareEmailEntries [''b@x.com'', ''a@x.com''] firstFile secondFile)))) = 0"
  using never_disposable [of noUnicode "''x@mailinator.com''" "[''a@x.com'', '' B@x.com '']"
      "[(1, 1), (0, 0)]" "''First File''" "[''b@x.com'', ''a@x.com'']" firstFile secondFile]
    schedule_two
  by blast

end
